theory Spec2Isabelle
  imports Complex_Main "HOL-Library.Word"
begin

unbundle bit_operations_syntax

section \<open>Python exceptions\<close>

text \<open>
  The exceptions that the modelled functions of
  \<^verbatim>\<open>examples/StereoDepth/stereo_depth_from_host.py\<close> can end in. A raise is a
  value \<open>Inl e\<close>; a normal return is \<open>Inr v\<close>.
\<close>

datatype py_error =
    AssertionError
  | RuntimeError string
  | Exception string
  | ZeroDivisionError
  | IndexError
  | ValueError
  | UnicodeDecodeError
  | FileNotFoundError

section \<open>DatasetManager\<close>

text \<open>
  \<^verbatim>\<open>os.path.join(a, b)\<close> for two POSIX components: an absolute second component
  replaces the first, otherwise the two are joined by exactly one separator.
\<close>

definition path_join :: "string \<Rightarrow> string \<Rightarrow> string" where
  "path_join a b =
     (if b \<noteq> [] \<and> hd b = CHR ''/'' then b
      else if a = [] \<or> last a = CHR ''/'' then a @ b
      else a @ ''/'' @ b)"

text \<open>
  Subscripting a list, \<^verbatim>\<open>self.names[self.index]\<close>: indices \<open>0 .. len - 1\<close> read from
  the front, indices \<open>-len .. -1\<close> read from the back, anything else raises
  \<^verbatim>\<open>IndexError\<close>.
\<close>

definition py_index :: "'a list \<Rightarrow> int \<Rightarrow> py_error + 'a" where
  "py_index xs i =
     (if 0 \<le> i \<and> i < int (length xs) then Inr (xs ! nat i)
      else if - int (length xs) \<le> i \<and> i < 0 then Inr (xs ! nat (int (length xs) + i))
      else Inl IndexError)"

text \<open>
  The operator \<^verbatim>\<open>%\<close> on Python integers: a zero modulus raises, and for a positive
  modulus the result lies in \<open>[0, b)\<close>, which is \<open>mod\<close> on \<open>int\<close>.
\<close>

definition py_mod :: "int \<Rightarrow> int \<Rightarrow> py_error + int" where
  "py_mod a b = (case b = 0 of True \<Rightarrow> Inl ZeroDivisionError | False \<Rightarrow> Inr (a mod b))"

record DatasetManager =
  path :: string
  index :: int
  names :: "string list"

text \<open>
  The constructor lists the directory and keeps the entries that are directories. The
  file system is given by \<open>listdir\<close> and \<open>isdir\<close>.
\<close>

definition DatasetManager_init ::
  "(string \<Rightarrow> string list) \<Rightarrow> (string \<Rightarrow> bool) \<Rightarrow> string \<Rightarrow> py_error + DatasetManager" where
  "DatasetManager_init listdir isdir p =
     (let ns = filter (\<lambda>d. isdir (path_join p d)) (listdir p)
      in if length ns = 0 then Inl (RuntimeError (''No dataset found at '' @ p))
         else Inr \<lparr>path = p, index = 0, names = ns\<rparr>)"

definition get :: "DatasetManager \<Rightarrow> py_error + string" where
  "get self =
     (case py_index (names self) (index self) of
        Inl e \<Rightarrow> Inl e
      | Inr d \<Rightarrow> Inr (path_join (path self) d))"

definition get_name :: "DatasetManager \<Rightarrow> py_error + string" where
  "get_name self = py_index (names self) (index self)"

text \<open>
  \<^verbatim>\<open>next\<close> and \<^verbatim>\<open>prev\<close> assign the new index and then return \<^verbatim>\<open>self.get()\<close>.
  The object after the call is returned with the result; when the assignment's
  right-hand side raises, the object is unchanged.
\<close>

definition "next" :: "DatasetManager \<Rightarrow> DatasetManager \<times> (py_error + string)" where
  "next self =
     (case py_mod (index self + 1) (int (length (names self))) of
        Inl e \<Rightarrow> (self, Inl e)
      | Inr i \<Rightarrow> (let self' = self\<lparr>index := i\<rparr> in (self', get self')))"

definition prev :: "DatasetManager \<Rightarrow> DatasetManager \<times> (py_error + string)" where
  "prev self =
     (case py_mod (index self - 1) (int (length (names self))) of
        Inl e \<Rightarrow> (self, Inl e)
      | Inr i \<Rightarrow> (let self' = self\<lparr>index := i\<rparr> in (self', get self')))"

text \<open>The key presses \<^verbatim>\<open>[\<close> and \<^verbatim>\<open>]\<close> of the main loop, as a list of calls.\<close>

datatype dm_call = Next | Prev

fun dm_run :: "dm_call list \<Rightarrow> DatasetManager \<Rightarrow> DatasetManager" where
  "dm_run [] self = self"
| "dm_run (Next # cs) self = dm_run cs (fst (next self))"
| "dm_run (Prev # cs) self = dm_run cs (fst (prev self))"

section \<open>Floating-point values and NumPy arrays\<close>

text \<open>
  A NumPy float is a finite number, one of the two infinities, or a NaN. Finite values
  are modelled by the real number they denote and arithmetic on them is exact: rounding,
  overflow and the sign of zero are outside the model. The special values follow
  IEEE 754 as NumPy implements it with its default error state, where a division by
  zero or an invalid operation yields an infinity or a NaN and a warning, never an
  exception.
\<close>

datatype fval = Fin real | PInf | NInf | NaN

fun fneg :: "fval \<Rightarrow> fval" where
  "fneg (Fin a) = Fin (- a)"
| "fneg PInf = NInf"
| "fneg NInf = PInf"
| "fneg NaN = NaN"

fun fabs :: "fval \<Rightarrow> fval" where
  "fabs (Fin a) = Fin \<bar>a\<bar>"
| "fabs PInf = PInf"
| "fabs NInf = PInf"
| "fabs NaN = NaN"

fun fadd :: "fval \<Rightarrow> fval \<Rightarrow> fval" where
  "fadd NaN _ = NaN"
| "fadd _ NaN = NaN"
| "fadd (Fin a) (Fin b) = Fin (a + b)"
| "fadd PInf NInf = NaN"
| "fadd NInf PInf = NaN"
| "fadd PInf _ = PInf"
| "fadd _ PInf = PInf"
| "fadd NInf _ = NInf"
| "fadd _ NInf = NInf"

definition fsub :: "fval \<Rightarrow> fval \<Rightarrow> fval" where
  "fsub x y = fadd x (fneg y)"

fun fmul :: "fval \<Rightarrow> fval \<Rightarrow> fval" where
  "fmul NaN _ = NaN"
| "fmul _ NaN = NaN"
| "fmul (Fin a) (Fin b) = Fin (a * b)"
| "fmul (Fin a) PInf = (if a = 0 then NaN else if 0 < a then PInf else NInf)"
| "fmul (Fin a) NInf = (if a = 0 then NaN else if 0 < a then NInf else PInf)"
| "fmul PInf (Fin b) = (if b = 0 then NaN else if 0 < b then PInf else NInf)"
| "fmul NInf (Fin b) = (if b = 0 then NaN else if 0 < b then NInf else PInf)"
| "fmul PInf PInf = PInf"
| "fmul PInf NInf = NInf"
| "fmul NInf PInf = NInf"
| "fmul NInf NInf = PInf"

fun fdiv :: "fval \<Rightarrow> fval \<Rightarrow> fval" where
  "fdiv NaN _ = NaN"
| "fdiv _ NaN = NaN"
| "fdiv (Fin a) (Fin b) =
     (if b = 0 then (if a = 0 then NaN else if 0 < a then PInf else NInf)
      else Fin (a / b))"
| "fdiv (Fin a) PInf = Fin 0"
| "fdiv (Fin a) NInf = Fin 0"
| "fdiv PInf (Fin b) = (if 0 \<le> b then PInf else NInf)"
| "fdiv NInf (Fin b) = (if 0 \<le> b then NInf else PInf)"
| "fdiv PInf PInf = NaN"
| "fdiv PInf NInf = NaN"
| "fdiv NInf PInf = NaN"
| "fdiv NInf NInf = NaN"

text \<open>The comparisons \<^verbatim>\<open>x > y\<close>, \<^verbatim>\<open>x >= y\<close> and \<^verbatim>\<open>x != y\<close>; a NaN compares
  unequal to everything and is neither greater nor smaller than anything.\<close>

fun fgt :: "fval \<Rightarrow> fval \<Rightarrow> bool" where
  "fgt NaN _ = False"
| "fgt _ NaN = False"
| "fgt (Fin a) (Fin b) = (b < a)"
| "fgt PInf PInf = False"
| "fgt PInf _ = True"
| "fgt _ PInf = False"
| "fgt NInf _ = False"
| "fgt _ NInf = True"

fun fge :: "fval \<Rightarrow> fval \<Rightarrow> bool" where
  "fge NaN _ = False"
| "fge _ NaN = False"
| "fge (Fin a) (Fin b) = (b \<le> a)"
| "fge PInf _ = True"
| "fge _ NInf = True"
| "fge NInf _ = False"
| "fge _ PInf = False"

fun fne :: "fval \<Rightarrow> fval \<Rightarrow> bool" where
  "fne NaN _ = True"
| "fne _ NaN = True"
| "fne x y = (x \<noteq> y)"

text \<open>
  An array is its shape and its elements in row-major order. A well-formed array has
  as many elements as its shape says.
\<close>

record 'a ndarray =
  shape :: "nat list"
  data :: "'a list"

definition wf_array :: "'a ndarray \<Rightarrow> bool" where
  "wf_array a = (length (data a) = prod_list (shape a))"

text \<open>
  Arrays are objects: the caller and the callee share them. The store maps a reference
  to the array it denotes, and a function that writes into an argument returns the
  store it leaves behind.
\<close>

type_synonym store = "nat \<Rightarrow> fval ndarray"

text \<open>\<^verbatim>\<open>a != np.inf\<close>, \<^verbatim>\<open>m1 & m2\<close>, \<^verbatim>\<open>~m\<close>, \<^verbatim>\<open>np.sum(m)\<close> on boolean arrays of one
  shape, on the flat data.\<close>

definition ne_inf :: "fval ndarray \<Rightarrow> bool list" where
  "ne_inf a = map (\<lambda>x. fne x PInf) (data a)"

definition mask_and :: "bool list \<Rightarrow> bool list \<Rightarrow> bool list" where
  "mask_and m1 m2 = map2 (\<and>) m1 m2"

definition mask_not :: "bool list \<Rightarrow> bool list" where
  "mask_not m = map Not m"

definition count_true :: "bool list \<Rightarrow> nat" where
  "count_true m = length (filter id m)"

text \<open>\<^verbatim>\<open>a[m] = v\<close>: the elements where the mask is true are overwritten.\<close>

definition setitem_mask :: "'a ndarray \<Rightarrow> bool list \<Rightarrow> 'a \<Rightarrow> 'a ndarray" where
  "setitem_mask a m v = a\<lparr>data := map2 (\<lambda>x b. if b then v else x) (data a) m\<rparr>"

text \<open>\<^verbatim>\<open>e[m]\<close>: the elements where the mask is true, in order, as a flat array.\<close>

definition getitem_mask :: "'a list \<Rightarrow> bool list \<Rightarrow> 'a list" where
  "getitem_mask e m = map fst (filter snd (zip e m))"

definition np_sum :: "fval list \<Rightarrow> fval" where
  "np_sum xs = foldl fadd (Fin 0) xs"

text \<open>\<^verbatim>\<open>100. * c / n\<close> for two counts.\<close>

definition percent :: "nat \<Rightarrow> nat \<Rightarrow> fval" where
  "percent c n = fdiv (fmul (Fin 100) (Fin (real c))) (Fin (real n))"

section \<open>calculate\_err\_measures\<close>

record report =
  bad05 :: fval
  total_bad05 :: fval
  bad1 :: fval
  total_bad1 :: fval
  bad2 :: fval
  total_bad2 :: fval
  bad4 :: fval
  total_bad4 :: fval
  invalid :: fval
  avg_err :: fval
  mse :: fval
  a50 :: fval
  a90 :: fval
  a95 :: fval
  a99 :: fval

text \<open>\<^verbatim>\<open>np.sum(mask & (err > t))\<close>.\<close>

definition bad_count :: "bool list \<Rightarrow> fval list \<Rightarrow> real \<Rightarrow> nat" where
  "bad_count msk err t = count_true (mask_and msk (map (\<lambda>e. fgt e (Fin t)) err))"

text \<open>
  The function takes the two arrays by reference. \<^verbatim>\<open>np.percentile\<close> belongs to NumPy,
  not to this repository, and is a parameter: it returns a value or raises. The
  statements run in the order of the source: the assertion, the three masks, the two
  masked assignments into the arguments, the error array, the counts and sums, the
  quotients, the four percentiles, the dictionary. An exception of \<^verbatim>\<open>np.percentile\<close>
  leaves the function after both assignments have been made.
\<close>

definition calculate_err_measures ::
  "(fval list \<Rightarrow> real \<Rightarrow> py_error + fval) \<Rightarrow> store \<Rightarrow> nat \<Rightarrow> nat
     \<Rightarrow> store \<times> (py_error + report)" where
  "calculate_err_measures np_percentile h gt_img oak_img =
     (if shape (h gt_img) \<noteq> shape (h oak_img) then (h, Inl AssertionError)
      else
        let gt_mask = ne_inf (h gt_img);
            oak_mask = ne_inf (h oak_img);
            msk = mask_and gt_mask oak_mask;
            h1 = h(gt_img := setitem_mask (h gt_img) (mask_not gt_mask) (Fin 0));
            h2 = h1(oak_img := setitem_mask (h1 oak_img) (mask_not msk) (Fin 0));
            err = map fabs (map2 fsub (data (h2 gt_img)) (data (h2 oak_img)));
            n = count_true gt_mask;
            invalid_n = count_true (mask_and gt_mask (mask_not oak_mask));
            n_bad05 = bad_count msk err (1/2);
            n_bad1 = bad_count msk err 1;
            n_bad2 = bad_count msk err 2;
            n_bad4 = bad_count msk err 4;
            sum_err = np_sum (getitem_mask err msk);
            sum_sq_err = np_sum (map (\<lambda>e. fmul e e) (getitem_mask err msk));
            errs = getitem_mask err msk;
            avg = fdiv sum_err (Fin (real_of_int (int n - int invalid_n)));
            ms = fdiv sum_sq_err (Fin (real_of_int (int n - int invalid_n)))
        in case np_percentile errs 50 of Inl e \<Rightarrow> (h2, Inl e) | Inr p50 \<Rightarrow>
           (case np_percentile errs 90 of Inl e \<Rightarrow> (h2, Inl e) | Inr p90 \<Rightarrow>
           (case np_percentile errs 95 of Inl e \<Rightarrow> (h2, Inl e) | Inr p95 \<Rightarrow>
           (case np_percentile errs 99 of Inl e \<Rightarrow> (h2, Inl e) | Inr p99 \<Rightarrow>
             (h2, Inr \<lparr>bad05 = percent n_bad05 n,
                       total_bad05 = percent (n_bad05 + invalid_n) n,
                       bad1 = percent n_bad1 n,
                       total_bad1 = percent (n_bad1 + invalid_n) n,
                       bad2 = percent n_bad2 n,
                       total_bad2 = percent (n_bad2 + invalid_n) n,
                       bad4 = percent n_bad4 n,
                       total_bad4 = percent (n_bad4 + invalid_n) n,
                       invalid = percent invalid_n n,
                       avg_err = avg,
                       mse = ms,
                       a50 = p50, a90 = p90, a95 = p95, a99 = p99\<rparr>)))))"

text \<open>
  Modelled from NumPy, which is not part of this repository: \<^verbatim>\<open>np.percentile(a, q)\<close>
  with the default linear interpolation. On an empty sample NumPy takes the element
  at index \<open>-1\<close> of an empty array and raises \<^verbatim>\<open>IndexError\<close>. On a sample that holds a
  NaN the result is NaN. Otherwise the sample is sorted, the position
  \<open>(len - 1) * q / 100\<close> is split into its floor and its fraction, and the result
  is interpolated between the two neighbours. No property below depends on the value
  returned for a non-empty sample.
\<close>

fun insort_fval :: "fval \<Rightarrow> fval list \<Rightarrow> fval list" where
  "insort_fval x [] = [x]"
| "insort_fval x (y # ys) = (if fge y x then x # y # ys else y # insort_fval x ys)"

definition sort_fval :: "fval list \<Rightarrow> fval list" where
  "sort_fval xs = foldr insort_fval xs []"

definition np_percentile_linear :: "fval list \<Rightarrow> real \<Rightarrow> py_error + fval" where
  "np_percentile_linear a q =
     (if a = [] then Inl IndexError
      else if NaN \<in> set a then Inr NaN
      else
        let s = sort_fval a;
            v = real (length a - 1) * q / 100;
            lo = nat \<lfloor>v\<rfloor>;
            hi = min (lo + 1) (length a - 1);
            g = v - real lo
        in Inr (fadd (s ! lo) (fmul (fsub (s ! hi) (s ! lo)) (Fin g))))"

section \<open>Named intermediate values of calculate\_err\_measures\<close>

text \<open>
  The properties below speak about values that the function computes on its way: the
  store after the two masked assignments, the joint validity mask \<^verbatim>\<open>mask\<close>, the
  array \<^verbatim>\<open>err\<close>, the sample \<^verbatim>\<open>errs = err[mask]\<close> and the count \<^verbatim>\<open>invalid\<close>. They are
  named here and tied to the function by lemmas.
\<close>

definition store_after :: "store \<Rightarrow> nat \<Rightarrow> nat \<Rightarrow> store" where
  "store_after h gt_img oak_img =
     (let gt_mask = ne_inf (h gt_img);
          oak_mask = ne_inf (h oak_img);
          msk = mask_and gt_mask oak_mask;
          h1 = h(gt_img := setitem_mask (h gt_img) (mask_not gt_mask) (Fin 0))
      in h1(oak_img := setitem_mask (h1 oak_img) (mask_not msk) (Fin 0)))"

definition joint_mask :: "store \<Rightarrow> nat \<Rightarrow> nat \<Rightarrow> bool list" where
  "joint_mask h gt_img oak_img = mask_and (ne_inf (h gt_img)) (ne_inf (h oak_img))"

definition err_array :: "store \<Rightarrow> nat \<Rightarrow> nat \<Rightarrow> fval list" where
  "err_array h gt_img oak_img =
     map fabs (map2 fsub (data (store_after h gt_img oak_img gt_img))
                         (data (store_after h gt_img oak_img oak_img)))"

definition errs_sample :: "store \<Rightarrow> nat \<Rightarrow> nat \<Rightarrow> fval list" where
  "errs_sample h gt_img oak_img =
     getitem_mask (err_array h gt_img oak_img) (joint_mask h gt_img oak_img)"

definition invalid_count :: "store \<Rightarrow> nat \<Rightarrow> nat \<Rightarrow> nat" where
  "invalid_count h gt_img oak_img =
     count_true (mask_and (ne_inf (h gt_img)) (mask_not (ne_inf (h oak_img))))"

definition all_false :: "bool list \<Rightarrow> bool" where
  "all_false m = (True \<notin> set m)"

text \<open>A store that holds one array at reference \<open>0\<close> and another at every other reference.\<close>

definition store2 :: "fval ndarray \<Rightarrow> fval ndarray \<Rightarrow> store" where
  "store2 a b = (\<lambda>r. if r = 0 then a else b)"

section \<open>Files and file handles\<close>

text \<open>
  A file is its bytes; a byte is a \<open>char\<close>. The world holds the files by path, the open
  handles with the bytes each has not read yet, and the next free handle number. A
  handle is open exactly while it is in the domain of \<open>handles\<close>; only closing one
  would remove it.
\<close>

record world =
  files :: "string \<Rightarrow> string option"
  handles :: "nat \<Rightarrow> string option"
  next_fd :: nat

text \<open>
  A statement that may read or change the world and either yields a value or raises: a
  function from the world before to the world after and the outcome. \<open>bind_io\<close> runs
  one statement after another and stops at the first raise, as Python does.
\<close>

type_synonym 'a io = "world \<Rightarrow> world \<times> (py_error + 'a)"

definition return_io :: "'a \<Rightarrow> 'a io" where
  "return_io x = (\<lambda>w. (w, Inr x))"

definition raise_io :: "py_error \<Rightarrow> 'a io" where
  "raise_io e = (\<lambda>w. (w, Inl e))"

definition lift_io :: "py_error + 'a \<Rightarrow> 'a io" where
  "lift_io r = (\<lambda>w. (w, r))"

definition bind_io :: "'a io \<Rightarrow> ('a \<Rightarrow> 'b io) \<Rightarrow> 'b io" where
  "bind_io m f =
     (\<lambda>w. case snd (m w) of
             Inl e \<Rightarrow> (fst (m w), Inl e)
           | Inr x \<Rightarrow> f x (fst (m w)))"

text \<open>\<^verbatim>\<open>open(file, "rb")\<close>.\<close>

definition open_rb :: "string \<Rightarrow> nat io" where
  "open_rb p =
     (\<lambda>w. case files w p of
             None \<Rightarrow> (w, Inl FileNotFoundError)
           | Some bs \<Rightarrow>
               (w\<lparr>handles := (handles w)(next_fd w \<mapsto> bs), next_fd := Suc (next_fd w)\<rparr>,
                Inr (next_fd w)))"

text \<open>
  \<^verbatim>\<open>file.readline()\<close>: the bytes up to and including the next line feed, or all that is
  left when there is none. Reading from a handle that is not open raises
  \<^verbatim>\<open>ValueError\<close>.
\<close>

definition split_line :: "string \<Rightarrow> string \<times> string" where
  "split_line bs =
     (case dropWhile (\<lambda>c. c \<noteq> CHR 0x0A) bs of
        [] \<Rightarrow> (bs, [])
      | nl # rest \<Rightarrow> (takeWhile (\<lambda>c. c \<noteq> CHR 0x0A) bs @ [nl], rest))"

definition readline :: "nat \<Rightarrow> string io" where
  "readline fd =
     (\<lambda>w. case handles w fd of
             None \<Rightarrow> (w, Inl ValueError)
           | Some bs \<Rightarrow>
               (w\<lparr>handles := (handles w)(fd \<mapsto> snd (split_line bs))\<rparr>,
                Inr (fst (split_line bs))))"

text \<open>\<^verbatim>\<open>bytes.rstrip()\<close> removes trailing ASCII whitespace: tab, line feed, vertical tab,
  form feed, carriage return and space.\<close>

definition is_bytes_space :: "char \<Rightarrow> bool" where
  "is_bytes_space c =
     (c \<in> set [CHR 0x09, CHR 0x0A, CHR 0x0B, CHR 0x0C, CHR 0x0D, CHR 0x20])"

definition rstrip :: "string \<Rightarrow> string" where
  "rstrip bs = rev (dropWhile is_bytes_space (rev bs))"

text \<open>\<^verbatim>\<open>bytes.decode("ascii")\<close> fails on a byte above 127.\<close>

definition decode_ascii :: "string \<Rightarrow> py_error + string" where
  "decode_ascii bs =
     (if list_all (\<lambda>c. (of_char c :: nat) < 128) bs then Inr bs else Inl UnicodeDecodeError)"

section \<open>The dimension line\<close>

text \<open>
  \<^verbatim>\<open>re.search(r"(\d+)\s(\d+)", line)\<close> on a string decoded from ASCII. There \<^verbatim>\<open>\d\<close> is
  a decimal digit and \<^verbatim>\<open>\s\<close> is one of the ten ASCII characters that Python's
  \<^verbatim>\<open>str\<close> patterns count as whitespace. A match at a position is a run of digits, one
  whitespace character and a run of digits. Both runs are greedy: a shorter first run
  would leave a digit where the whitespace has to stand, so only the longest can match,
  and nothing follows the second run in the pattern. \<^verbatim>\<open>search\<close> returns the match at
  the leftmost position that has one.
\<close>

definition is_digit :: "char \<Rightarrow> bool" where
  "is_digit c = (c \<in> set ''0123456789'')"

definition is_space :: "char \<Rightarrow> bool" where
  "is_space c =
     (c \<in> set [CHR 0x09, CHR 0x0A, CHR 0x0B, CHR 0x0C, CHR 0x0D,
               CHR 0x1C, CHR 0x1D, CHR 0x1E, CHR 0x1F, CHR 0x20])"

definition match_dims :: "string \<Rightarrow> (string \<times> string) option" where
  "match_dims s =
     (let g1 = takeWhile is_digit s in
      if g1 = [] then None
      else case dropWhile is_digit s of
             [] \<Rightarrow> None
           | c # r \<Rightarrow>
               if \<not> is_space c then None
               else let g2 = takeWhile is_digit r in
                    if g2 = [] then None else Some (g1, g2))"

fun re_search_dims :: "string \<Rightarrow> (string \<times> string) option" where
  "re_search_dims [] = None"
| "re_search_dims (c # s) =
     (case match_dims (c # s) of
        Some g \<Rightarrow> Some g
      | None \<Rightarrow> re_search_dims s)"

text \<open>\<^verbatim>\<open>int(g)\<close> on a string of decimal digits.\<close>

definition digit_val :: "char \<Rightarrow> nat" where
  "digit_val c = of_char c - 48"

definition int_of_digits :: "string \<Rightarrow> nat" where
  "int_of_digits g = foldl (\<lambda>n c. 10 * n + digit_val c) 0 g"

section \<open>The binary payload\<close>

text \<open>
  A pixel is a 32-bit float, kept as its bit pattern. \<^verbatim>\<open>np.fromfile(file, ">f")\<close> reads
  four bytes per pixel with the most significant byte first, \<^verbatim>\<open>"<f"\<close> with the least
  significant byte first. Bytes that do not fill a pixel at the end of the file are
  left unread.
\<close>

datatype endian = Little | Big

definition be_word :: "char \<Rightarrow> char \<Rightarrow> char \<Rightarrow> char \<Rightarrow> 32 word" where
  "be_word b0 b1 b2 b3 =
     word_of_nat (((of_char b0 * 256 + of_char b1) * 256 + of_char b2) * 256 + of_char b3)"

definition f32_word :: "endian \<Rightarrow> char \<Rightarrow> char \<Rightarrow> char \<Rightarrow> char \<Rightarrow> 32 word" where
  "f32_word e b0 b1 b2 b3 = (case e of Big \<Rightarrow> be_word b0 b1 b2 b3 | Little \<Rightarrow> be_word b3 b2 b1 b0)"

fun decode_f32 :: "endian \<Rightarrow> string \<Rightarrow> 32 word list" where
  "decode_f32 e (b0 # b1 # b2 # b3 # bs) = f32_word e b0 b1 b2 b3 # decode_f32 e bs"
| "decode_f32 e bs = []"

definition fromfile :: "nat \<Rightarrow> endian \<Rightarrow> (32 word list) io" where
  "fromfile fd e =
     (\<lambda>w. case handles w fd of
             None \<Rightarrow> (w, Inl ValueError)
           | Some bs \<Rightarrow>
               (w\<lparr>handles := (handles w)(fd \<mapsto> drop (4 * (length bs div 4)) bs)\<rparr>,
                Inr (decode_f32 e bs)))"

text \<open>\<^verbatim>\<open>np.reshape(data, shape)\<close> raises \<^verbatim>\<open>ValueError\<close> unless the sizes agree.\<close>

definition reshape :: "'a list \<Rightarrow> nat list \<Rightarrow> py_error + 'a ndarray" where
  "reshape d sh =
     (if length d = prod_list sh then Inr \<lparr>shape = sh, data = d\<rparr> else Inl ValueError)"

text \<open>
  The rows of an array along its first axis, and \<^verbatim>\<open>np.flip(a, axis=0)\<close>, which
  reverses their order.
\<close>

definition row_len :: "'a ndarray \<Rightarrow> nat" where
  "row_len a = prod_list (tl (shape a))"

definition row :: "'a ndarray \<Rightarrow> nat \<Rightarrow> 'a list" where
  "row a i = take (row_len a) (drop (i * row_len a) (data a))"

definition flip0 :: "'a ndarray \<Rightarrow> 'a ndarray" where
  "flip0 a = a\<lparr>data := concat (rev (map (row a) [0..<hd (shape a)]))\<rparr>"

section \<open>read\_pfm\<close>

text \<open>
  The file object has one reference, the local variable \<^verbatim>\<open>file\<close>. When the function
  returns, its frame is discarded, the reference dies, and CPython finalises the file
  object, which closes the handle. When the function raises, the traceback of the
  exception keeps the frame, and with it the file object: the handle stays open for as
  long as the exception is alive. The source itself has no \<^verbatim>\<open>close\<close> and no
  \<^verbatim>\<open>with\<close>.
\<close>

definition leave_frame :: "nat \<Rightarrow> 'a io \<Rightarrow> 'a io" where
  "leave_frame fd m =
     (\<lambda>w. case snd (m w) of
             Inl e \<Rightarrow> (fst (m w), Inl e)
           | Inr x \<Rightarrow> ((fst (m w))\<lparr>handles := (handles (fst (m w)))(fd := None)\<rparr>, Inr x))"

text \<open>
  The function opens the file and reads three header lines and the payload from the
  handle. Python's \<^verbatim>\<open>float\<close> is a parameter: it returns a float or raises
  \<^verbatim>\<open>ValueError\<close>. The statements run in the order of the source; \<open>dims\<close> is the pair
  (width, height), \<open>header = ''PF''\<close> is \<^verbatim>\<open>color\<close>, and a negative \<open>parsed\<close> scale
  selects \<^verbatim>\<open>"<"\<close> and is negated. The world after the call comes with the result, on a
  normal return and on every raise.
\<close>

definition read_pfm ::
  "(string \<Rightarrow> fval option) \<Rightarrow> string \<Rightarrow> (32 word ndarray \<times> fval) io" where
  "read_pfm py_float path_arg =
     bind_io (open_rb path_arg) (\<lambda>file. leave_frame file (
     bind_io (readline file) (\<lambda>l1.
     bind_io (lift_io (decode_ascii (rstrip l1))) (\<lambda>header.
     if header \<noteq> ''PF'' \<and> header \<noteq> ''Pf'' then raise_io (Exception ''Not a PFM file.'')
     else
     bind_io (readline file) (\<lambda>l2.
     bind_io (lift_io (decode_ascii l2)) (\<lambda>s2.
     bind_io (case re_search_dims s2 of
                None \<Rightarrow> raise_io (Exception ''Malformed PFM header.'')
              | Some g \<Rightarrow> return_io (int_of_digits (fst g), int_of_digits (snd g)))
       (\<lambda>dims.
     bind_io (readline file) (\<lambda>l3.
     bind_io (case py_float (rstrip l3) of
                None \<Rightarrow> raise_io ValueError
              | Some parsed \<Rightarrow> return_io parsed) (\<lambda>parsed.
     bind_io (fromfile file (if fgt (Fin 0) parsed then Little else Big)) (\<lambda>d.
     bind_io (lift_io (reshape d (if header = ''PF'' then [snd dims, fst dims, 3]
                                  else [snd dims, fst dims]))) (\<lambda>a.
     return_io (flip0 a, if fgt (Fin 0) parsed then fneg parsed else parsed))))))))))))"

text \<open>
  A small reader of decimal numbers, used where a closed example needs a value for the
  parameter \<open>py_float\<close>: an optional minus sign, digits, and optionally a point and more
  digits. Python's \<^verbatim>\<open>float\<close> accepts these and reads them as here; it accepts more,
  which is rejected here.
\<close>

definition float_of_decimal :: "string \<Rightarrow> fval option" where
  "float_of_decimal s =
     (let neg = (s \<noteq> [] \<and> hd s = CHR ''-'');
          body = (if neg then tl s else s);
          ip = takeWhile is_digit body;
          rest = dropWhile is_digit body;
          fp = (if rest \<noteq> [] \<and> hd rest = CHR ''.'' then tl rest else []);
          v = real (int_of_digits ip) + real (int_of_digits fp) / 10 ^ length fp
      in if ip = [] \<or> \<not> list_all is_digit fp \<or> (rest \<noteq> [] \<and> hd rest \<noteq> CHR ''.'')
         then None
         else Some (Fin (if neg then - v else v)))"

text \<open>A world with one file and no open handle.\<close>

definition one_file :: "string \<Rightarrow> string \<Rightarrow> world" where
  "one_file p bs =
     \<lparr>files = (\<lambda>q. if q = p then Some bs else None), handles = (\<lambda>fd. None), next_fd = 0\<rparr>"

text \<open>
  The three header lines and the payload of a file's bytes, as three calls of
  \<^verbatim>\<open>readline\<close> cut them.
\<close>

definition pfm_parts :: "string \<Rightarrow> string \<times> string \<times> string \<times> string" where
  "pfm_parts bs =
     (let l1 = fst (split_line bs); r1 = snd (split_line bs);
          l2 = fst (split_line r1); r2 = snd (split_line r1);
          l3 = fst (split_line r2); r3 = snd (split_line r2)
      in (l1, l2, l3, r3))"

text \<open>
  What a match of the pattern at the start of a string is, said without the matcher:
  the string starts with the digits \<open>g1\<close>, one whitespace character and the digits
  \<open>g2\<close>, and \<open>g2\<close> ends where the digits end.
\<close>

definition dims_here :: "string \<Rightarrow> string \<Rightarrow> string \<Rightarrow> bool" where
  "dims_here s g1 g2 =
     (g1 \<noteq> [] \<and> g2 \<noteq> [] \<and> list_all is_digit g1 \<and> list_all is_digit g2 \<and>
      (\<exists>c post. is_space c \<and> s = g1 @ c # g2 @ post \<and>
                 (post = [] \<or> \<not> is_digit (hd post))))"

text \<open>The bytes of a PFM file: three header lines, each closed by a line feed, and the
  payload.\<close>

definition pfm_bytes :: "string \<Rightarrow> string \<Rightarrow> string \<Rightarrow> string \<Rightarrow> string" where
  "pfm_bytes magic dims scale payload =
     magic @ [CHR 0x0A] @ dims @ [CHR 0x0A] @ scale @ [CHR 0x0A] @ payload"

text \<open>
  The bytes of a payload with every group of four reversed: the same pixels written in
  the other byte order.
\<close>

fun swap4 :: "string \<Rightarrow> string" where
  "swap4 (b0 # b1 # b2 # b3 # bs) = b3 # b2 # b1 # b0 # swap4 bs"
| "swap4 bs = bs"

text \<open>
  The eleven quotients of lines 769 to 779, in the order of the source: the four pairs
  \<^verbatim>\<open>bad_p\<close>, \<^verbatim>\<open>total_bad_p\<close> for the thresholds 0.5, 1, 2 and 4, then \<^verbatim>\<open>invalid_p\<close>,
  \<^verbatim>\<open>avg_err\<close> and \<^verbatim>\<open>mse\<close>. They are computed before \<^verbatim>\<open>np.percentile\<close> is called.
\<close>

definition quotients :: "store \<Rightarrow> nat \<Rightarrow> nat \<Rightarrow> fval list" where
  "quotients h gt_img oak_img =
     (let n = count_true (ne_inf (h gt_img));
          invalid_n = invalid_count h gt_img oak_img;
          msk = joint_mask h gt_img oak_img;
          err = err_array h gt_img oak_img
      in [percent (bad_count msk err (1/2)) n, percent (bad_count msk err (1/2) + invalid_n) n,
          percent (bad_count msk err 1) n, percent (bad_count msk err 1 + invalid_n) n,
          percent (bad_count msk err 2) n, percent (bad_count msk err 2 + invalid_n) n,
          percent (bad_count msk err 4) n, percent (bad_count msk err 4 + invalid_n) n,
          percent invalid_n n,
          fdiv (np_sum (getitem_mask err msk)) (Fin (real_of_int (int n - int invalid_n))),
          fdiv (np_sum (map (\<lambda>e. fmul e e) (getitem_mask err msk)))
               (Fin (real_of_int (int n - int invalid_n)))])"

section \<open>Properties of DatasetManager\<close>

lemma next_index:
  assumes "names self \<noteq> []" "0 \<le> index self" "index self < int (length (names self))"
  shows "index (fst (next self)) =
           (if index self = int (length (names self)) - 1 then 0 else index self + 1)"
    and "names (fst (next self)) = names self"
    and "path (fst (next self)) = path self"
  using assms by (auto simp: next_def py_mod_def Let_def)

lemma prev_index:
  assumes "names self \<noteq> []" "0 \<le> index self" "index self < int (length (names self))"
  shows "index (fst (prev self)) =
           (if index self = 0 then int (length (names self)) - 1 else index self - 1)"
    and "names (fst (prev self)) = names self"
    and "path (fst (prev self)) = path self"
proof -
  let ?k = "int (length (names self))"
  have k: "0 < ?k" using assms(1) by simp
  have "(index self - 1) mod ?k = (if index self = 0 then ?k - 1 else index self - 1)"
  proof (cases "index self = 0")
    case True
    have "(- 1) mod ?k = ?k - 1"
      using k by (simp add: zmod_minus1)
    with True show ?thesis by simp
  next
    case False
    with assms have "0 \<le> index self - 1" "index self - 1 < ?k" by auto
    then show ?thesis using False by simp
  qed
  with k show "index (fst (prev self)) =
           (if index self = 0 then ?k - 1 else index self - 1)"
    by (simp add: prev_def py_mod_def Let_def)
  from k show "names (fst (prev self)) = names self" "path (fst (prev self)) = path self"
    by (simp_all add: prev_def py_mod_def Let_def)
qed

lemma dm_run_invariant:
  assumes "names self \<noteq> []" "0 \<le> index self" "index self < int (length (names self))"
  shows "names (dm_run cs self) = names self \<and> path (dm_run cs self) = path self
         \<and> 0 \<le> index (dm_run cs self) \<and> index (dm_run cs self) < int (length (names self))"
  using assms
proof (induction cs self rule: dm_run.induct)
  case (1 self)
  then show ?case by simp
next
  case (2 cs self)
  let ?s = "fst (next self)"
  have "names ?s \<noteq> []" "0 \<le> index ?s" "index ?s < int (length (names ?s))"
    using "2.prems" next_index[of self] by (auto split: if_splits)
  from "2.IH"[OF this] show ?case
    using "2.prems" next_index(2,3)[of self] by simp
next
  case (3 cs self)
  let ?s = "fst (prev self)"
  have "names ?s \<noteq> []" "0 \<le> index ?s" "index ?s < int (length (names ?s))"
    using "3.prems" prev_index[of self] by (auto split: if_splits)
  from "3.IH"[OF this] show ?case
    using "3.prems" prev_index(2,3)[of self] by simp
qed

lemma init_state:
  assumes "DatasetManager_init listdir isdir p = Inr dm"
  shows "names dm \<noteq> []" "index dm = 0" "path dm = p"
    "names dm = filter (\<lambda>d. isdir (path_join p d)) (listdir p)"
  using assms by (auto simp: DatasetManager_init_def Let_def split: if_splits)

lemma get_in_range:
  assumes "0 \<le> index self" "index self < int (length (names self))"
  shows "get self = Inr (path_join (path self) (names self ! nat (index self)))"
  using assms by (simp add: get_def py_index_def Let_def)

text \<open>
  Claim C10. A \<open>DatasetManager\<close> constructed over a directory with \<open>k \<ge> 1\<close> dataset
  subdirectories, after any sequence of \<^verbatim>\<open>next()\<close> and \<^verbatim>\<open>prev()\<close> calls, has its
  index in \<open>[0, k)\<close>; \<^verbatim>\<open>next\<close> moves the index one up and wraps from \<open>k - 1\<close> to
  \<open>0\<close>, \<^verbatim>\<open>prev\<close> moves it one down and wraps from \<open>0\<close> to \<open>k - 1\<close>, both stay in
  range and return \<^verbatim>\<open>get()\<close> of the new state without raising, and \<^verbatim>\<open>prev\<close> after
  \<^verbatim>\<open>next\<close> restores the object, hence the value of \<^verbatim>\<open>get()\<close>.
\<close>

theorem DatasetManager_index_cycle:
  assumes init: "DatasetManager_init listdir isdir p = Inr dm0"
    and reach: "self = dm_run cs dm0"
  shows "0 \<le> index self \<and> index self < int (length (names dm0))
    \<and> length (names dm0) \<ge> 1
    \<and> names self = names dm0
    \<and> index (fst (next self)) =
          (if index self = int (length (names dm0)) - 1 then 0 else index self + 1)
    \<and> 0 \<le> index (fst (next self)) \<and> index (fst (next self)) < int (length (names dm0))
    \<and> index (fst (prev self)) =
          (if index self = 0 then int (length (names dm0)) - 1 else index self - 1)
    \<and> 0 \<le> index (fst (prev self)) \<and> index (fst (prev self)) < int (length (names dm0))
    \<and> snd (next self) =
          Inr (path_join p (names dm0 ! nat (index (fst (next self)))))
    \<and> snd (prev self) =
          Inr (path_join p (names dm0 ! nat (index (fst (prev self)))))
    \<and> fst (prev (fst (next self))) = self
    \<and> snd (prev (fst (next self))) = get self
    \<and> get self = Inr (path_join p (names dm0 ! nat (index self)))"
proof -
  let ?k = "int (length (names dm0))"
  have ne: "names dm0 \<noteq> []" and i0: "index dm0 = 0" and p0: "path dm0 = p"
    using init_state[OF init] by simp_all
  have inv: "names self = names dm0" "path self = p" "0 \<le> index self" "index self < ?k"
    using dm_run_invariant[of dm0 cs] ne i0 p0 reach by simp_all
  have nes: "names self \<noteq> []" using inv(1) ne by simp
  have lt: "index self < int (length (names self))" using inv by simp
  note nx = next_index[OF nes inv(3) lt]
  note pv = prev_index[OF nes inv(3) lt]
  have nxi: "index (fst (next self)) = (if index self = ?k - 1 then 0 else index self + 1)"
    using nx(1) inv(1) by simp
  have pvi: "index (fst (prev self)) = (if index self = 0 then ?k - 1 else index self - 1)"
    using pv(1) inv(1) by simp
  have k1: "1 \<le> ?k" using ne by (cases "names dm0") simp_all
  have nxr: "0 \<le> index (fst (next self))" "index (fst (next self)) < ?k"
    using nxi inv(3,4) k1 by (auto split: if_splits)
  have pvr: "0 \<le> index (fst (prev self))" "index (fst (prev self)) < ?k"
    using pvi inv(3,4) k1 by (auto split: if_splits)
  have snd_next: "snd (next self) = get (fst (next self))"
    using nes by (simp add: next_def py_mod_def Let_def)
  have snd_prev: "snd (prev self) = get (fst (prev self))"
    using nes by (simp add: prev_def py_mod_def Let_def)
  have gn: "get (fst (next self)) = Inr (path_join p (names dm0 ! nat (index (fst (next self)))))"
    using get_in_range[of "fst (next self)"] nxr nx(2,3) inv(1,2) by simp
  have gp: "get (fst (prev self)) = Inr (path_join p (names dm0 ! nat (index (fst (prev self)))))"
    using get_in_range[of "fst (prev self)"] pvr pv(2,3) inv(1,2) by simp
  have gs: "get self = Inr (path_join p (names dm0 ! nat (index self)))"
    using get_in_range[of self] inv by simp
  let ?n = "fst (next self)"
  have nn: "names ?n \<noteq> []" "0 \<le> index ?n" "index ?n < int (length (names ?n))"
    using nx(2) nes nxr inv(1) by simp_all
  have rest_i: "index (fst (prev ?n)) = index self"
    using prev_index(1)[OF nn] nxi nx(2) inv(1,3,4) by (auto split: if_splits)
  have rest: "fst (prev ?n) = self"
    using rest_i prev_index(2,3)[OF nn] nx(2,3) by (intro DatasetManager.equality) simp_all
  have snd_rest: "snd (prev ?n) = get self"
    using nn(1) rest by (simp add: prev_def py_mod_def Let_def)
  show ?thesis
    using inv(1,3,4) k1 nxi nxr pvi pvr snd_next snd_prev gn gp gs rest snd_rest
    by simp
qed

theorem DatasetManager_index_cycle_witness:
  "DatasetManager_init (\<lambda>_. [''a'', ''f.txt'', ''b'']) (\<lambda>q. q \<noteq> ''d/f.txt'') ''d''
     = Inr \<lparr>path = ''d'', index = 0, names = [''a'', ''b'']\<rparr>
   \<and> index (dm_run [Next] \<lparr>path = ''d'', index = 0, names = [''a'', ''b'']\<rparr>) = 1
   \<and> index (fst (next (dm_run [Next] \<lparr>path = ''d'', index = 0, names = [''a'', ''b'']\<rparr>))) = 0
   \<and> snd (next (dm_run [Next] \<lparr>path = ''d'', index = 0, names = [''a'', ''b'']\<rparr>)) = Inr ''d/a''
   \<and> fst (prev (fst (next (dm_run [Next] \<lparr>path = ''d'', index = 0, names = [''a'', ''b'']\<rparr>))))
       = dm_run [Next] \<lparr>path = ''d'', index = 0, names = [''a'', ''b'']\<rparr>"
proof -
  let ?dm0 = "\<lparr>path = ''d'', index = 0, names = [''a'', ''b'']\<rparr>"
  have h: "DatasetManager_init (\<lambda>_. [''a'', ''f.txt'', ''b'']) (\<lambda>q. q \<noteq> ''d/f.txt'') ''d''
     = Inr ?dm0"
    by (simp add: DatasetManager_init_def path_join_def)
  have i: "index (dm_run [Next] ?dm0) = 1"
    by (simp add: next_def py_mod_def get_def py_index_def Let_def)
  show ?thesis
    using h i DatasetManager_index_cycle[OF h refl, of "[Next]"]
    by (simp add: path_join_def)
qed

section \<open>Properties of calculate\_err\_measures\<close>

lemma fne_PInf [simp]: "fne x PInf = (x \<noteq> PInf)"
  by (cases x) simp_all

lemma length_setitem_mask:
  "length (data (setitem_mask a m v)) = min (length (data a)) (length m)"
  by (simp add: setitem_mask_def)

lemma shape_setitem_mask [simp]: "shape (setitem_mask a m v) = shape a"
  by (simp add: setitem_mask_def)

lemma nth_setitem_mask:
  "i < length (data a) \<Longrightarrow> i < length m \<Longrightarrow>
   data (setitem_mask a m v) ! i = (if m ! i then v else data a ! i)"
  by (simp add: setitem_mask_def)

lemma fst_calc:
  "shape (h gt_img) = shape (h oak_img) \<Longrightarrow>
   fst (calculate_err_measures P h gt_img oak_img) = store_after h gt_img oak_img"
  by (simp add: calculate_err_measures_def store_after_def Let_def split: sum.splits)


lemma store_after_neq:
  "gt_img \<noteq> oak_img \<Longrightarrow>
   store_after h gt_img oak_img =
     h(gt_img := setitem_mask (h gt_img) (mask_not (ne_inf (h gt_img))) (Fin 0),
       oak_img := setitem_mask (h oak_img)
          (mask_not (mask_and (ne_inf (h gt_img)) (ne_inf (h oak_img)))) (Fin 0))"
  by (simp add: store_after_def Let_def)

lemma store_after_eq:
  "store_after h r r =
     h(r := setitem_mask (setitem_mask (h r) (mask_not (ne_inf (h r))) (Fin 0))
          (mask_not (mask_and (ne_inf (h r)) (ne_inf (h r)))) (Fin 0))"
  by (simp add: store_after_def Let_def)


lemma store_after_shape:
  "shape (store_after h gt_img oak_img r) = shape (h r)"
  by (cases "gt_img = oak_img") (simp_all add: store_after_eq store_after_neq)

lemma store_after_other:
  "r \<noteq> gt_img \<Longrightarrow> r \<noteq> oak_img \<Longrightarrow> store_after h gt_img oak_img r = h r"
  by (cases "gt_img = oak_img") (simp_all add: store_after_eq store_after_neq)

lemma store_after_length:
  assumes "length (data (h gt_img)) = length (data (h oak_img))"
  shows "length (data (store_after h gt_img oak_img gt_img)) = length (data (h gt_img))"
    and "length (data (store_after h gt_img oak_img oak_img)) = length (data (h oak_img))"
proof -
  show "length (data (store_after h gt_img oak_img gt_img)) = length (data (h gt_img))"
  proof (cases "gt_img = oak_img")
    case True
    then show ?thesis
      by (simp add: store_after_eq length_setitem_mask ne_inf_def mask_and_def mask_not_def)
  next
    case False
    then show ?thesis
      by (simp add: store_after_neq length_setitem_mask ne_inf_def mask_not_def)
  qed
  show "length (data (store_after h gt_img oak_img oak_img)) = length (data (h oak_img))"
  proof (cases "gt_img = oak_img")
    case True
    then show ?thesis
      by (simp add: store_after_eq length_setitem_mask ne_inf_def mask_and_def mask_not_def)
  next
    case False
    then show ?thesis using assms
      by (simp add: store_after_neq length_setitem_mask ne_inf_def mask_and_def mask_not_def)
  qed
qed

lemma store_after_gt_nth:
  assumes len: "length (data (h gt_img)) = length (data (h oak_img))"
    and i: "i < length (data (h gt_img))"
  shows "data (store_after h gt_img oak_img gt_img) ! i =
           (if data (h gt_img) ! i = PInf then Fin 0 else data (h gt_img) ! i)"
proof (cases "gt_img = oak_img")
  case True
  then show ?thesis using i
    by (simp add: store_after_eq nth_setitem_mask length_setitem_mask ne_inf_def
        mask_and_def mask_not_def)
next
  case False
  then show ?thesis using i
    by (simp add: store_after_neq nth_setitem_mask ne_inf_def mask_not_def)
qed

lemma store_after_oak_nth:
  assumes len: "length (data (h gt_img)) = length (data (h oak_img))"
    and i: "i < length (data (h gt_img))"
  shows "data (store_after h gt_img oak_img oak_img) ! i =
           (if data (h gt_img) ! i \<noteq> PInf \<and> data (h oak_img) ! i \<noteq> PInf
            then data (h oak_img) ! i else Fin 0)"
proof (cases "gt_img = oak_img")
  case True
  then show ?thesis using i
    by (simp add: store_after_eq nth_setitem_mask length_setitem_mask ne_inf_def
        mask_and_def mask_not_def)
next
  case False
  have i': "i < length (data (h oak_img))" using i len by simp
  show ?thesis using False i i'
    by (simp add: store_after_neq nth_setitem_mask ne_inf_def mask_and_def mask_not_def)
qed


lemma snd_calc_Inr:
  assumes "snd (calculate_err_measures P h gt_img oak_img) = Inr r"
  shows "shape (h gt_img) = shape (h oak_img)"
    and "\<exists>v. P (errs_sample h gt_img oak_img) 50 = Inr v"
    and "bad05 r = percent (bad_count (joint_mask h gt_img oak_img) (err_array h gt_img oak_img) (1/2))
                     (count_true (ne_inf (h gt_img)))"
    and "bad1 r = percent (bad_count (joint_mask h gt_img oak_img) (err_array h gt_img oak_img) 1)
                     (count_true (ne_inf (h gt_img)))"
    and "bad2 r = percent (bad_count (joint_mask h gt_img oak_img) (err_array h gt_img oak_img) 2)
                     (count_true (ne_inf (h gt_img)))"
    and "bad4 r = percent (bad_count (joint_mask h gt_img oak_img) (err_array h gt_img oak_img) 4)
                     (count_true (ne_inf (h gt_img)))"
  using assms
  by (auto simp: calculate_err_measures_def Let_def joint_mask_def err_array_def
      errs_sample_def store_after_def split: if_splits sum.splits)


lemma count_true_mask_and_mono:
  assumes "\<And>x. p x \<Longrightarrow> q x"
  shows "count_true (mask_and m (map p xs)) \<le> count_true (mask_and m (map q xs))"
proof (induction m arbitrary: xs)
  case Nil
  then show ?case by (simp add: count_true_def mask_and_def)
next
  case (Cons b m)
  show ?case
  proof (cases xs)
    case Nil
    then show ?thesis by (simp add: count_true_def mask_and_def)
  next
    case (Cons y ys)
    have "count_true (mask_and m (map p ys)) \<le> count_true (mask_and m (map q ys))"
      using Cons.IH[of ys] .
    then show ?thesis using Cons assms[of y]
      by (auto simp: count_true_def mask_and_def)
  qed
qed

lemma fgt_threshold_mono: "t1 \<le> t2 \<Longrightarrow> fgt e (Fin t2) \<Longrightarrow> fgt e (Fin t1)"
  by (cases e) simp_all

lemma bad_count_mono: "t1 \<le> t2 \<Longrightarrow> bad_count m err t2 \<le> bad_count m err t1"
  unfolding bad_count_def
  by (rule count_true_mask_and_mono) (rule fgt_threshold_mono)

lemma percent_pos: "1 \<le> n \<Longrightarrow> percent c n = Fin (100 * real c / real n)"
  by (simp add: percent_def)

lemma percent_mono: "1 \<le> n \<Longrightarrow> a \<le> b \<Longrightarrow> fge (percent b n) (percent a n)"
  by (simp add: percent_pos divide_right_mono)

lemma count_true_mask_and_le: "count_true (mask_and m1 m2) \<le> count_true m1"
proof (induction m1 arbitrary: m2)
  case Nil
  then show ?case by (simp add: count_true_def mask_and_def)
next
  case (Cons b m)
  show ?case
  proof (cases m2)
    case Nil
    then show ?thesis by (simp add: count_true_def mask_and_def)
  next
    case (Cons c cs)
    then show ?thesis using Cons.IH[of cs]
      by (auto simp: count_true_def mask_and_def)
  qed
qed

lemma getitem_mask_length: "length (getitem_mask e m) \<le> count_true m"
proof (induction e arbitrary: m)
  case Nil
  then show ?case by (simp add: getitem_mask_def)
next
  case (Cons x e)
  show ?case
  proof (cases m)
    case Nil
    then show ?thesis by (simp add: getitem_mask_def)
  next
    case (Cons c cs)
    then show ?thesis using Cons.IH[of cs]
      by (auto simp: getitem_mask_def count_true_def)
  qed
qed

lemma sample_nonempty_valid:
  assumes "errs_sample h gt_img oak_img \<noteq> []"
  shows "1 \<le> count_true (ne_inf (h gt_img))"
proof -
  have "1 \<le> length (errs_sample h gt_img oak_img)"
    using assms by (cases "errs_sample h gt_img oak_img") simp_all
  also have "\<dots> \<le> count_true (joint_mask h gt_img oak_img)"
    unfolding errs_sample_def by (rule getitem_mask_length)
  also have "\<dots> \<le> count_true (ne_inf (h gt_img))"
    unfolding joint_mask_def by (rule count_true_mask_and_le)
  finally show ?thesis .
qed

lemma all_false_mask_and_left: "all_false m1 \<Longrightarrow> all_false (mask_and m1 m2)"
  by (auto simp: all_false_def mask_and_def dest: set_zip_leftD)

lemma all_false_mask_and_right: "all_false m2 \<Longrightarrow> all_false (mask_and m1 m2)"
  by (auto simp: all_false_def mask_and_def dest: set_zip_rightD)

lemma all_false_count: "all_false m \<Longrightarrow> count_true m = 0"
  by (auto simp: all_false_def count_true_def filter_empty_conv)

lemma all_false_getitem: "all_false m \<Longrightarrow> getitem_mask e m = []"
  by (auto simp: all_false_def getitem_mask_def filter_empty_conv dest: set_zip_rightD)

lemma all_false_bad_count: "all_false m \<Longrightarrow> bad_count m err t = 0"
  unfolding bad_count_def by (intro all_false_count all_false_mask_and_left)

lemma ne_inf_all_false:
  "(\<forall>x\<in>set (data a). x = PInf) \<Longrightarrow> all_false (ne_inf a)"
  by (auto simp: all_false_def ne_inf_def)


lemma percent_full: "1 \<le> n \<Longrightarrow> percent n n = Fin 100"
  by (simp add: percent_def)

lemma percent_none: "1 \<le> n \<Longrightarrow> percent 0 n = Fin 0"
  by (simp add: percent_def)

lemma calc_empty_mask:
  assumes sh: "shape (h gt_img) = shape (h oak_img)"
    and em: "all_false (joint_mask h gt_img oak_img)"
  shows "snd (calculate_err_measures P h gt_img oak_img) =
     (case P [] 50 of Inl e \<Rightarrow> Inl e | Inr p50 \<Rightarrow>
     (case P [] 90 of Inl e \<Rightarrow> Inl e | Inr p90 \<Rightarrow>
     (case P [] 95 of Inl e \<Rightarrow> Inl e | Inr p95 \<Rightarrow>
     (case P [] 99 of Inl e \<Rightarrow> Inl e | Inr p99 \<Rightarrow>
        Inr \<lparr>bad05 = percent 0 (count_true (ne_inf (h gt_img))),
             total_bad05 = percent (invalid_count h gt_img oak_img) (count_true (ne_inf (h gt_img))),
             bad1 = percent 0 (count_true (ne_inf (h gt_img))),
             total_bad1 = percent (invalid_count h gt_img oak_img) (count_true (ne_inf (h gt_img))),
             bad2 = percent 0 (count_true (ne_inf (h gt_img))),
             total_bad2 = percent (invalid_count h gt_img oak_img) (count_true (ne_inf (h gt_img))),
             bad4 = percent 0 (count_true (ne_inf (h gt_img))),
             total_bad4 = percent (invalid_count h gt_img oak_img) (count_true (ne_inf (h gt_img))),
             invalid = percent (invalid_count h gt_img oak_img) (count_true (ne_inf (h gt_img))),
             avg_err = fdiv (Fin 0) (Fin (real_of_int (int (count_true (ne_inf (h gt_img)))
                          - int (invalid_count h gt_img oak_img)))),
             mse = fdiv (Fin 0) (Fin (real_of_int (int (count_true (ne_inf (h gt_img)))
                          - int (invalid_count h gt_img oak_img)))),
             a50 = p50, a90 = p90, a95 = p95, a99 = p99\<rparr>))))"
proof -
  have g: "\<And>e. getitem_mask e (mask_and (ne_inf (h gt_img)) (ne_inf (h oak_img))) = []"
    using em by (simp add: joint_mask_def all_false_getitem)
  have b: "\<And>e t. bad_count (mask_and (ne_inf (h gt_img)) (ne_inf (h oak_img))) e t = 0"
    using em by (simp add: joint_mask_def all_false_bad_count)
  show ?thesis
    using sh
    by (simp add: calculate_err_measures_def Let_def g b np_sum_def invalid_count_def
        split: sum.splits)
qed

lemma calc_mismatch:
  "shape (h gt_img) \<noteq> shape (h oak_img) \<Longrightarrow>
   calculate_err_measures P h gt_img oak_img = (h, Inl AssertionError)"
  by (simp add: calculate_err_measures_def)

lemma snd_calc_Inl:
  assumes sh: "shape (h gt_img) = shape (h oak_img)"
    and res: "snd (calculate_err_measures P h gt_img oak_img) = Inl e"
  shows "\<exists>xs q. P xs q = Inl e"
  using sh res
  by (auto simp: calculate_err_measures_def Let_def simp del: fun_upd_apply
      split: sum.splits)

lemmas eval_defs = calculate_err_measures_def store2_def Let_def ne_inf_def mask_and_def
  mask_not_def setitem_mask_def getitem_mask_def count_true_def bad_count_def percent_def
  np_sum_def np_percentile_linear_def sort_fval_def fsub_def

lemma np_percentile_linear_not_assert: "np_percentile_linear xs q \<noteq> Inl AssertionError"
  by (simp add: np_percentile_linear_def Let_def)

text \<open>
  Claim C7. When the shapes of the two input maps differ, \<^verbatim>\<open>calculate_err_measures\<close>
  fails at its assertion, before anything is written: the result is the
  \<^verbatim>\<open>AssertionError\<close>, no report, and the store is unchanged. When the shapes are equal
  the assertion passes, so an \<^verbatim>\<open>AssertionError\<close> can only come out of the library
  function \<^verbatim>\<open>np.percentile\<close>; if that never raises one, the call does not end in one.
  The spec's name for this failure is \<^verbatim>\<open>ShapeMismatchError\<close>; the source raises it
  with \<^verbatim>\<open>assert\<close>.
\<close>

theorem calculate_err_measures_shape_check:
  "(shape (h gt_img) \<noteq> shape (h oak_img) \<longrightarrow>
      calculate_err_measures np_percentile h gt_img oak_img = (h, Inl AssertionError))
   \<and> (shape (h gt_img) = shape (h oak_img) \<longrightarrow>
      (\<forall>xs q. np_percentile xs q \<noteq> Inl AssertionError) \<longrightarrow>
      snd (calculate_err_measures np_percentile h gt_img oak_img) \<noteq> Inl AssertionError)"
proof (intro conjI impI)
  assume "shape (h gt_img) \<noteq> shape (h oak_img)"
  then show "calculate_err_measures np_percentile h gt_img oak_img = (h, Inl AssertionError)"
    by (rule calc_mismatch)
next
  assume sh: "shape (h gt_img) = shape (h oak_img)"
    and lib: "\<forall>xs q. np_percentile xs q \<noteq> Inl AssertionError"
  show "snd (calculate_err_measures np_percentile h gt_img oak_img) \<noteq> Inl AssertionError"
  proof
    assume "snd (calculate_err_measures np_percentile h gt_img oak_img) = Inl AssertionError"
    from snd_calc_Inl[OF sh this] lib show False by blast
  qed
qed

theorem calculate_err_measures_shape_check_witness:
  "calculate_err_measures np_percentile_linear
      (store2 \<lparr>shape = [1, 2], data = [Fin 3, Fin 4]\<rparr> \<lparr>shape = [2, 1], data = [Fin 3, Fin 4]\<rparr>) 0 1
     = (store2 \<lparr>shape = [1, 2], data = [Fin 3, Fin 4]\<rparr> \<lparr>shape = [2, 1], data = [Fin 3, Fin 4]\<rparr>,
        Inl AssertionError)
   \<and> snd (calculate_err_measures np_percentile_linear
      (store2 \<lparr>shape = [1, 2], data = [Fin 3, Fin 4]\<rparr> \<lparr>shape = [1, 2], data = [Fin 3, Fin 4]\<rparr>) 0 1)
     \<noteq> Inl AssertionError"
proof -
  let ?a = "\<lparr>shape = [1, 2], data = [Fin 3, Fin 4]\<rparr>"
  let ?b = "\<lparr>shape = [2, 1], data = [Fin 3, Fin 4]\<rparr>"
  have d: "shape (store2 ?a ?b 0) \<noteq> shape (store2 ?a ?b 1)" by (simp add: store2_def)
  have e: "shape (store2 ?a ?a 0) = shape (store2 ?a ?a 1)" by (simp add: store2_def)
  have l: "\<forall>xs q. np_percentile_linear xs q \<noteq> Inl AssertionError"
    by (simp add: np_percentile_linear_not_assert)
  from calculate_err_measures_shape_check[of "store2 ?a ?b" 0 1 np_percentile_linear] d
  have 1: "calculate_err_measures np_percentile_linear (store2 ?a ?b) 0 1
             = (store2 ?a ?b, Inl AssertionError)"
    by simp
  from calculate_err_measures_shape_check[of "store2 ?a ?a" 0 1 np_percentile_linear] e l
  have 2: "snd (calculate_err_measures np_percentile_linear (store2 ?a ?a) 0 1)
             \<noteq> Inl AssertionError"
    by simp
  from 1 2 show ?thesis by (rule conjI)
qed

text \<open>
  Claim C9. With equal shapes, the function writes into its two arguments and nowhere
  else. In the ground-truth array every element equal to \<open>+inf\<close> becomes \<open>0\<close> and
  every other element keeps its value. In the computed array every element outside the
  joint validity mask (ground truth invalid or computed invalid) becomes \<open>0\<close> and every
  element where both maps are valid keeps its value. Shapes and sizes do not change, and
  no other array of the store changes. This holds whether or not the two arguments are
  the same array, and whether the call returns a report or ends in an exception of
  \<^verbatim>\<open>np.percentile\<close>.
\<close>

theorem calculate_err_measures_mutation_frame:
  assumes sh: "shape (h gt_img) = shape (h oak_img)"
    and wg: "wf_array (h gt_img)" and wo: "wf_array (h oak_img)"
    and h': "h' = fst (calculate_err_measures np_percentile h gt_img oak_img)"
  shows "shape (h' gt_img) = shape (h gt_img) \<and> shape (h' oak_img) = shape (h oak_img)
    \<and> length (data (h' gt_img)) = length (data (h gt_img))
    \<and> length (data (h' oak_img)) = length (data (h oak_img))
    \<and> (\<forall>i < length (data (h gt_img)).
          data (h' gt_img) ! i =
            (if data (h gt_img) ! i = PInf then Fin 0 else data (h gt_img) ! i)
        \<and> data (h' oak_img) ! i =
            (if data (h gt_img) ! i \<noteq> PInf \<and> data (h oak_img) ! i \<noteq> PInf
             then data (h oak_img) ! i else Fin 0))
    \<and> (\<forall>r. r \<noteq> gt_img \<and> r \<noteq> oak_img \<longrightarrow> h' r = h r)"
proof -
  have len: "length (data (h gt_img)) = length (data (h oak_img))"
    using sh wg wo by (simp add: wf_array_def)
  have eq: "h' = store_after h gt_img oak_img"
    using h' fst_calc[OF sh] by simp
  show ?thesis
    unfolding eq
    using store_after_length[OF len] store_after_gt_nth[OF len] store_after_oak_nth[OF len]
    by (simp add: store_after_shape store_after_other)
qed

theorem calculate_err_measures_mutation_frame_witness:
  "data (fst (calculate_err_measures np_percentile_linear
      (store2 \<lparr>shape = [2, 2], data = [Fin 3, PInf, Fin 7, PInf]\<rparr>
              \<lparr>shape = [2, 2], data = [Fin 1, Fin 5, PInf, PInf]\<rparr>) 0 2) 0) ! 0 = Fin 3
   \<and> data (fst (calculate_err_measures np_percentile_linear
      (store2 \<lparr>shape = [2, 2], data = [Fin 3, PInf, Fin 7, PInf]\<rparr>
              \<lparr>shape = [2, 2], data = [Fin 1, Fin 5, PInf, PInf]\<rparr>) 0 2) 0) ! 1 = Fin 0
   \<and> data (fst (calculate_err_measures np_percentile_linear
      (store2 \<lparr>shape = [2, 2], data = [Fin 3, PInf, Fin 7, PInf]\<rparr>
              \<lparr>shape = [2, 2], data = [Fin 1, Fin 5, PInf, PInf]\<rparr>) 0 2) 2) ! 0 = Fin 1
   \<and> data (fst (calculate_err_measures np_percentile_linear
      (store2 \<lparr>shape = [2, 2], data = [Fin 3, PInf, Fin 7, PInf]\<rparr>
              \<lparr>shape = [2, 2], data = [Fin 1, Fin 5, PInf, PInf]\<rparr>) 0 2) 2) ! 1 = Fin 0
   \<and> data (fst (calculate_err_measures np_percentile_linear
      (store2 \<lparr>shape = [2, 2], data = [Fin 3, PInf, Fin 7, PInf]\<rparr>
              \<lparr>shape = [2, 2], data = [Fin 1, Fin 5, PInf, PInf]\<rparr>) 0 2) 2) ! 2 = Fin 0
   \<and> shape (fst (calculate_err_measures np_percentile_linear
      (store2 \<lparr>shape = [2, 2], data = [Fin 3, PInf, Fin 7, PInf]\<rparr>
              \<lparr>shape = [2, 2], data = [Fin 1, Fin 5, PInf, PInf]\<rparr>) 0 2) 2) = [2, 2]"
proof -
  let ?h = "store2 \<lparr>shape = [2, 2], data = [Fin 3, PInf, Fin 7, PInf]\<rparr>
              \<lparr>shape = [2, 2], data = [Fin 1, Fin 5, PInf, PInf]\<rparr>"
  let ?h' = "fst (calculate_err_measures np_percentile_linear ?h 0 2)"
  have a: "shape (?h 0) = shape (?h 2)" "wf_array (?h 0)" "wf_array (?h 2)"
    by (simp_all add: store2_def wf_array_def)
  note t = calculate_err_measures_mutation_frame[OF a refl, of np_percentile_linear]
  have g: "data (?h 0) = [Fin 3, PInf, Fin 7, PInf]" "data (?h 2) = [Fin 1, Fin 5, PInf, PInf]"
    "shape (?h 2) = [2, 2]"
    by (simp_all add: store2_def)
  from t have all: "\<forall>i<length (data (?h 0)).
          data (?h' 0) ! i = (if data (?h 0) ! i = PInf then Fin 0 else data (?h 0) ! i)
        \<and> data (?h' 2) ! i =
            (if data (?h 0) ! i \<noteq> PInf \<and> data (?h 2) ! i \<noteq> PInf
             then data (?h 2) ! i else Fin 0)"
    by blast
  have i0: "data (?h' 0) ! 0 = Fin 3 \<and> data (?h' 2) ! 0 = Fin 1"
    using all[rule_format, of 0] unfolding g by simp
  have i1: "data (?h' 0) ! 1 = Fin 0 \<and> data (?h' 2) ! 1 = Fin 0"
    using all[rule_format, of 1] unfolding g by simp
  have i2: "data (?h' 2) ! 2 = Fin 0"
    using all[rule_format, of 2] unfolding g by simp
  have s: "shape (?h' 2) = [2, 2]"
    using t g(3) by simp
  from i0 i1 i2 s show ?thesis by blast
qed

text \<open>
  Claim C8. Whenever the function returns a report, the bad-pixel percentages do not
  increase with the threshold: \<open>bad0.5 \<ge> bad1 \<ge> bad2 \<ge> bad4\<close>, with \<open>\<ge>\<close> the
  comparison of floats. A report is only returned when \<^verbatim>\<open>np.percentile\<close> accepts the
  sample \<^verbatim>\<open>errs\<close>; NumPy rejects an empty sample, and then the ground truth of every
  accepted pair has a valid pixel, so that the percentages are numbers. The statement
  covers both ways of knowing that: the library rejects the empty sample, or the ground
  truth is known to have a valid pixel.
\<close>

theorem calculate_err_measures_threshold_monotone:
  assumes res: "snd (calculate_err_measures np_percentile h gt_img oak_img) = Inr r"
    and dom: "(\<exists>e. np_percentile [] 50 = Inl e) \<or> 1 \<le> count_true (ne_inf (h gt_img))"
  shows "fge (bad05 r) (bad1 r) \<and> fge (bad1 r) (bad2 r) \<and> fge (bad2 r) (bad4 r)"
proof -
  note f = snd_calc_Inr[OF res]
  have n: "1 \<le> count_true (ne_inf (h gt_img))"
  proof (cases "errs_sample h gt_img oak_img = []")
    case True
    with f(2) dom show ?thesis by auto
  next
    case False
    then show ?thesis by (rule sample_nonempty_valid)
  qed
  show ?thesis
    unfolding f(3-6)
    by (intro conjI percent_mono[OF n] bad_count_mono) simp_all
qed

theorem calculate_err_measures_threshold_monotone_witness:
  "snd (calculate_err_measures np_percentile_linear
          (store2 \<lparr>shape = [1, 2], data = [Fin 3, PInf]\<rparr>
                  \<lparr>shape = [1, 2], data = [Fin 1, Fin 5]\<rparr>) 0 1)
   = Inr \<lparr>bad05 = Fin 100, total_bad05 = Fin 100, bad1 = Fin 100, total_bad1 = Fin 100,
       bad2 = Fin 0, total_bad2 = Fin 0, bad4 = Fin 0, total_bad4 = Fin 0, invalid = Fin 0,
       avg_err = Fin 2, mse = Fin 4, a50 = Fin 2, a90 = Fin 2, a95 = Fin 2, a99 = Fin 2\<rparr>
   \<and> np_percentile_linear [] 50 = Inl IndexError
   \<and> fge (Fin 100) (Fin 100) \<and> fge (Fin 100) (Fin 0) \<and> fge (Fin 0) (Fin 0)"
proof -
  let ?h = "store2 \<lparr>shape = [1, 2], data = [Fin 3, PInf]\<rparr>
                  \<lparr>shape = [1, 2], data = [Fin 1, Fin 5]\<rparr>"
  let ?r = "\<lparr>bad05 = Fin 100, total_bad05 = Fin 100, bad1 = Fin 100, total_bad1 = Fin 100,
       bad2 = Fin 0, total_bad2 = Fin 0, bad4 = Fin 0, total_bad4 = Fin 0, invalid = Fin 0,
       avg_err = Fin 2, mse = Fin 4, a50 = Fin 2, a90 = Fin 2, a95 = Fin 2, a99 = Fin 2\<rparr>"
  have r: "snd (calculate_err_measures np_percentile_linear ?h 0 1) = Inr ?r"
    by (simp add: eval_defs)
  have e: "np_percentile_linear [] 50 = Inl IndexError"
    by (simp add: np_percentile_linear_def)
  have d: "(\<exists>e. np_percentile_linear [] 50 = Inl e) \<or> 1 \<le> count_true (ne_inf (?h 0))"
    using e by simp
  from calculate_err_measures_threshold_monotone[OF r d] r e show ?thesis by simp
qed


lemma mask_and_not_all_false:
  "length m1 = length m2 \<Longrightarrow> all_false m2 \<Longrightarrow> mask_and m1 (mask_not m2) = m1"
proof (induction m1 m2 rule: list_induct2)
  case Nil
  then show ?case by (simp add: mask_and_def mask_not_def)
next
  case (Cons b bs c cs)
  then show ?case by (simp add: mask_and_def mask_not_def all_false_def)
qed

lemma invalid_count_no_computed:
  assumes "length (data (h gt_img)) = length (data (h oak_img))"
    and "all_false (ne_inf (h oak_img))"
  shows "invalid_count h gt_img oak_img = count_true (ne_inf (h gt_img))"
proof -
  have "length (ne_inf (h gt_img)) = length (ne_inf (h oak_img))"
    using assms(1) by (simp add: ne_inf_def)
  then show ?thesis
    unfolding invalid_count_def using assms(2) by (simp add: mask_and_not_all_false)
qed

text \<open>
  What the function computes when the computed map is entirely \<open>+inf\<close> and the ground
  truth has a valid pixel: the sample handed to \<^verbatim>\<open>np.percentile\<close> is empty, and the
  report that would be returned holds \<open>invalid = 100\<close> and \<open>total_bad = 100\<close> at
  every threshold.
\<close>

lemma calc_all_invalid_computed:
  assumes sh: "shape (h gt_img) = shape (h oak_img)"
    and wg: "wf_array (h gt_img)" and wo: "wf_array (h oak_img)"
    and inf: "\<forall>x\<in>set (data (h oak_img)). x = PInf"
    and n: "1 \<le> count_true (ne_inf (h gt_img))"
  shows "snd (calculate_err_measures P h gt_img oak_img) =
     (case P [] 50 of Inl e \<Rightarrow> Inl e | Inr p50 \<Rightarrow>
     (case P [] 90 of Inl e \<Rightarrow> Inl e | Inr p90 \<Rightarrow>
     (case P [] 95 of Inl e \<Rightarrow> Inl e | Inr p95 \<Rightarrow>
     (case P [] 99 of Inl e \<Rightarrow> Inl e | Inr p99 \<Rightarrow>
        Inr \<lparr>bad05 = Fin 0, total_bad05 = Fin 100, bad1 = Fin 0, total_bad1 = Fin 100,
             bad2 = Fin 0, total_bad2 = Fin 100, bad4 = Fin 0, total_bad4 = Fin 100,
             invalid = Fin 100, avg_err = NaN, mse = NaN,
             a50 = p50, a90 = p90, a95 = p95, a99 = p99\<rparr>))))"
proof -
  have len: "length (data (h gt_img)) = length (data (h oak_img))"
    using sh wg wo by (simp add: wf_array_def)
  have af: "all_false (ne_inf (h oak_img))"
    using inf by (rule ne_inf_all_false)
  have em: "all_false (joint_mask h gt_img oak_img)"
    unfolding joint_mask_def using af by (rule all_false_mask_and_right)
  have iv: "invalid_count h gt_img oak_img = count_true (ne_inf (h gt_img))"
    using len af by (rule invalid_count_no_computed)
  have p1: "percent (count_true (ne_inf (h gt_img))) (count_true (ne_inf (h gt_img))) = Fin 100"
    using n by (rule percent_full)
  have p0: "percent 0 (count_true (ne_inf (h gt_img))) = Fin 0"
    using n by (rule percent_none)
  show ?thesis
    unfolding calc_empty_mask[OF sh em] iv p1 p0
    by (simp split: sum.splits)
qed

text \<open>
  Claim C3, evaluated at a ground truth with one valid pixel and a computed map that is
  entirely \<open>+inf\<close>: the call ends in the \<^verbatim>\<open>IndexError\<close> that NumPy's \<^verbatim>\<open>np.percentile\<close>
  raises on the empty sample, and no report is returned. The two input arrays have been
  zeroed by then.
\<close>

theorem calculate_err_measures_all_invalid_computed_raises:
  "snd (calculate_err_measures np_percentile_linear
          (store2 \<lparr>shape = [2, 2], data = [Fin 3, Fin 4, PInf, Fin 6]\<rparr>
                  \<lparr>shape = [2, 2], data = [PInf, PInf, PInf, PInf]\<rparr>) 0 2)
     = Inl IndexError"
  by (simp add: eval_defs)

text \<open>The quotients are the values that a returned report carries.\<close>

lemma report_quotients:
  assumes "snd (calculate_err_measures P h gt_img oak_img) = Inr r"
  shows "[bad05 r, total_bad05 r, bad1 r, total_bad1 r, bad2 r, total_bad2 r, bad4 r,
          total_bad4 r, invalid r, avg_err r, mse r] = quotients h gt_img oak_img"
  using assms
  by (auto simp: calculate_err_measures_def Let_def quotients_def joint_mask_def err_array_def
      invalid_count_def store_after_def split: if_splits sum.splits)




section \<open>Properties of read\_pfm: the file handle\<close>

definition keeps_open :: "nat \<Rightarrow> 'a io \<Rightarrow> bool" where
  "keeps_open fd m = (\<forall>w. handles w fd \<noteq> None \<longrightarrow> handles (fst (m w)) fd \<noteq> None)"

lemma snd_leave_frame [simp]: "snd (leave_frame fd m w) = snd (m w)"
  by (simp add: leave_frame_def split: sum.splits)

lemma leave_frame_raise:
  "snd (m w) = Inl e \<Longrightarrow> fst (leave_frame fd m w) = fst (m w)"
  by (simp add: leave_frame_def)

lemma leave_frame_return:
  "snd (m w) = Inr x \<Longrightarrow>
   fst (leave_frame fd m w) = (fst (m w))\<lparr>handles := (handles (fst (m w)))(fd := None)\<rparr>"
  by (simp add: leave_frame_def)

lemma keeps_openD: "keeps_open fd m \<Longrightarrow> handles w fd \<noteq> None \<Longrightarrow> handles (fst (m w)) fd \<noteq> None"
  by (simp add: keeps_open_def)

lemma keeps_open_return: "keeps_open fd (return_io x)"
  by (simp add: keeps_open_def return_io_def)

lemma keeps_open_raise: "keeps_open fd (raise_io e)"
  by (simp add: keeps_open_def raise_io_def)

lemma keeps_open_lift: "keeps_open fd (lift_io r)"
  by (simp add: keeps_open_def lift_io_def)

lemma keeps_open_readline: "keeps_open fd (readline fd')"
  by (auto simp: keeps_open_def readline_def split: option.splits)

lemma keeps_open_fromfile: "keeps_open fd (fromfile fd' e)"
  by (auto simp: keeps_open_def fromfile_def split: option.splits)

lemma keeps_open_bind:
  assumes "keeps_open fd m" and "\<And>x. keeps_open fd (f x)"
  shows "keeps_open fd (bind_io m f)"
  using assms by (auto simp: keeps_open_def bind_io_def split: sum.splits)

lemma keeps_open_if:
  "keeps_open fd a \<Longrightarrow> keeps_open fd b \<Longrightarrow> keeps_open fd (if c then a else b)"
  by simp

lemma keeps_open_case_option:
  "keeps_open fd a \<Longrightarrow> (\<And>x. keeps_open fd (f x)) \<Longrightarrow>
   keeps_open fd (case v of None \<Rightarrow> a | Some x \<Rightarrow> f x)"
  by (cases v) simp_all

lemma bind_open_rb:
  "files w p = Some bs \<Longrightarrow>
   bind_io (open_rb p) f w =
     f (next_fd w) (w\<lparr>handles := (handles w)(next_fd w \<mapsto> bs), next_fd := Suc (next_fd w)\<rparr>)"
  by (simp add: bind_io_def open_rb_def)

lemma bind_open_rb_missing:
  "files w p = None \<Longrightarrow> bind_io (open_rb p) f w = (w, Inl FileNotFoundError)"
  by (simp add: bind_io_def open_rb_def)

lemmas keeps_open_intros = keeps_open_bind keeps_open_if keeps_open_case_option
  keeps_open_return keeps_open_raise keeps_open_lift keeps_open_readline keeps_open_fromfile

lemma read_pfm_opened:
  assumes f: "files w p = Some bs"
  shows "\<exists>m. read_pfm py_float p w =
              leave_frame (next_fd w) m
                (w\<lparr>handles := (handles w)(next_fd w \<mapsto> bs), next_fd := Suc (next_fd w)\<rparr>)
            \<and> (\<forall>fd. keeps_open fd m)"
  unfolding read_pfm_def bind_open_rb[OF f]
  by (intro exI conjI, rule refl) (intro allI keeps_open_intros)

text \<open>
  Claim C2, as amended. \<^verbatim>\<open>read_pfm\<close> has no release of its own. When the file exists
  and the call raises (``Not a PFM file.'', ``Malformed PFM header.'', a failure to
  decode a header line, to read the scale or to reshape) the handle that \<^verbatim>\<open>open\<close>
  returned is still open in the world the call leaves behind. When the call returns,
  the handle is closed, by the finalisation of the file object and not by a statement
  of the function. No other handle is closed. When the file does not exist, no handle is
  opened and the world is unchanged.
\<close>

theorem read_pfm_handle_on_exit:
  "(files w p = Some bs \<longrightarrow>
      (\<forall>e. snd (read_pfm py_float p w) = Inl e \<longrightarrow>
            handles (fst (read_pfm py_float p w)) (next_fd w) \<noteq> None)
      \<and> (\<forall>v. snd (read_pfm py_float p w) = Inr v \<longrightarrow>
            handles (fst (read_pfm py_float p w)) (next_fd w) = None))
   \<and> (files w p = None \<longrightarrow> read_pfm py_float p w = (w, Inl FileNotFoundError))
   \<and> (\<forall>fd. fd \<noteq> next_fd w \<and> handles w fd \<noteq> None \<longrightarrow>
            handles (fst (read_pfm py_float p w)) fd \<noteq> None)"
proof (intro conjI impI allI)
  fix e
  assume f: "files w p = Some bs" and r: "snd (read_pfm py_float p w) = Inl e"
  let ?w1 = "w\<lparr>handles := (handles w)(next_fd w \<mapsto> bs), next_fd := Suc (next_fd w)\<rparr>"
  from read_pfm_opened[OF f, of py_float] obtain m
    where m: "read_pfm py_float p w = leave_frame (next_fd w) m ?w1"
      and k: "\<forall>fd. keeps_open fd m" by blast
  have h1: "handles ?w1 (next_fd w) \<noteq> None" by simp
  from r m have "snd (m ?w1) = Inl e" by simp
  then have "fst (read_pfm py_float p w) = fst (m ?w1)"
    unfolding m by (rule leave_frame_raise)
  then show "handles (fst (read_pfm py_float p w)) (next_fd w) \<noteq> None"
    using keeps_openD[OF k[rule_format] h1] by simp
next
  fix v
  assume f: "files w p = Some bs" and r: "snd (read_pfm py_float p w) = Inr v"
  let ?w1 = "w\<lparr>handles := (handles w)(next_fd w \<mapsto> bs), next_fd := Suc (next_fd w)\<rparr>"
  from read_pfm_opened[OF f, of py_float] obtain m
    where m: "read_pfm py_float p w = leave_frame (next_fd w) m ?w1" by blast
  from r m have "snd (m ?w1) = Inr v" by simp
  then have "fst (read_pfm py_float p w) =
               (fst (m ?w1))\<lparr>handles := (handles (fst (m ?w1)))(next_fd w := None)\<rparr>"
    unfolding m by (rule leave_frame_return)
  then show "handles (fst (read_pfm py_float p w)) (next_fd w) = None" by simp
next
  assume "files w p = None"
  then show "read_pfm py_float p w = (w, Inl FileNotFoundError)"
    unfolding read_pfm_def by (rule bind_open_rb_missing)
next
  fix fd
  assume a: "fd \<noteq> next_fd w \<and> handles w fd \<noteq> None"
  show "handles (fst (read_pfm py_float p w)) fd \<noteq> None"
  proof (cases "files w p")
    case None
    then have "read_pfm py_float p w = (w, Inl FileNotFoundError)"
      unfolding read_pfm_def by (rule bind_open_rb_missing)
    with a show ?thesis by simp
  next
    case (Some bs')
    let ?w1 = "w\<lparr>handles := (handles w)(next_fd w \<mapsto> bs'), next_fd := Suc (next_fd w)\<rparr>"
    from read_pfm_opened[OF Some, of py_float] obtain m
      where m: "read_pfm py_float p w = leave_frame (next_fd w) m ?w1"
        and k: "\<forall>fd. keeps_open fd m" by blast
    have h1: "handles ?w1 fd \<noteq> None" using a by simp
    have h2: "handles (fst (m ?w1)) fd \<noteq> None"
      using keeps_openD[OF k[rule_format] h1] .
    show ?thesis
      unfolding m using h2 a by (simp add: leave_frame_def split: sum.splits)
  qed
qed

lemmas pfm_eval_defs = read_pfm_def leave_frame_def bind_io_def open_rb_def readline_def
  split_line_def lift_io_def raise_io_def return_io_def decode_ascii_def rstrip_def
  is_bytes_space_def one_file_def

lemmas pfm_eval_all = pfm_eval_defs pfm_bytes_def fromfile_def f32_word_def be_word_def
  reshape_def flip0_def row_def row_len_def match_dims_def is_digit_def is_space_def
  int_of_digits_def digit_val_def float_of_decimal_def Let_def upt_rec

theorem read_pfm_handle_on_exit_witness:
  "snd (read_pfm float_of_decimal ''disp1.pfm''
         (one_file ''disp1.pfm'' (pfm_bytes ''P6'' ''2 2'' ''-1.0'' ''0123456789abcdef'')))
     = Inl (Exception ''Not a PFM file.'')
   \<and> handles (fst (read_pfm float_of_decimal ''disp1.pfm''
         (one_file ''disp1.pfm'' (pfm_bytes ''P6'' ''2 2'' ''-1.0'' ''0123456789abcdef'')))) 0
       \<noteq> None
   \<and> snd (read_pfm float_of_decimal ''disp1.pfm''
         (one_file ''disp1.pfm'' (pfm_bytes ''Pf'' ''2 2'' ''-1.0'' ''0123456789abcdef'')))
     = Inr (\<lparr>shape = [2, 2], data = [0x62613938, 0x66656463, 0x33323130, 0x37363534]\<rparr>, Fin 1)
   \<and> handles (fst (read_pfm float_of_decimal ''disp1.pfm''
         (one_file ''disp1.pfm'' (pfm_bytes ''Pf'' ''2 2'' ''-1.0'' ''0123456789abcdef'')))) 0
       = None
   \<and> read_pfm float_of_decimal ''other.pfm''
         (one_file ''disp1.pfm'' (pfm_bytes ''Pf'' ''2 2'' ''-1.0'' ''0123456789abcdef''))
       = (one_file ''disp1.pfm'' (pfm_bytes ''Pf'' ''2 2'' ''-1.0'' ''0123456789abcdef''),
          Inl FileNotFoundError)"
proof -
  let ?bad = "pfm_bytes ''P6'' ''2 2'' ''-1.0'' ''0123456789abcdef''"
  let ?good = "pfm_bytes ''Pf'' ''2 2'' ''-1.0'' ''0123456789abcdef''"
  let ?wb = "one_file ''disp1.pfm'' ?bad"
  let ?wg = "one_file ''disp1.pfm'' ?good"
  have fb: "files ?wb ''disp1.pfm'' = Some ?bad" and nb: "next_fd ?wb = 0"
    and fg: "files ?wg ''disp1.pfm'' = Some ?good" and ng: "next_fd ?wg = 0"
    and fo: "files ?wg ''other.pfm'' = None"
    by (simp_all add: one_file_def)
  have rb: "snd (read_pfm float_of_decimal ''disp1.pfm'' ?wb) = Inl (Exception ''Not a PFM file.'')"
    by (simp add: pfm_eval_all)
  have rg: "snd (read_pfm float_of_decimal ''disp1.pfm'' ?wg)
      = Inr (\<lparr>shape = [2, 2], data = [0x62613938, 0x66656463, 0x33323130, 0x37363534]\<rparr>, Fin 1)"
    by (simp add: pfm_eval_all)
  from read_pfm_handle_on_exit[of ?wb "''disp1.pfm''" ?bad float_of_decimal] fb rb
  have 1: "handles (fst (read_pfm float_of_decimal ''disp1.pfm'' ?wb)) 0 \<noteq> None"
    unfolding nb by blast
  from read_pfm_handle_on_exit[of ?wg "''disp1.pfm''" ?good float_of_decimal] fg rg
  have 2: "handles (fst (read_pfm float_of_decimal ''disp1.pfm'' ?wg)) 0 = None"
    unfolding ng by blast
  from read_pfm_handle_on_exit[of ?wg "''other.pfm''" ?good float_of_decimal] fo
  have 3: "read_pfm float_of_decimal ''other.pfm'' ?wg = (?wg, Inl FileNotFoundError)"
    by blast
  from rb 1 rg 2 3 show ?thesis by blast
qed

text \<open>
  The claim as stated fails on both parse-failure paths that it names. A file with a bad
  magic token ends in ``Not a PFM file.'' and a file with a bad dimension line ends in
  ``Malformed PFM header.''; after either call the handle that was opened, number \<open>0\<close>,
  is still open, with the bytes it has not read.
\<close>

theorem read_pfm_release_counterexample:
  "snd (read_pfm float_of_decimal ''disp1.pfm'' (one_file ''disp1.pfm'' [CHR ''P'', CHR ''6'', CHR 0x0A, CHR ''x'']))
     = Inl (Exception ''Not a PFM file.'')
   \<and> handles (fst (read_pfm float_of_decimal ''disp1.pfm''
        (one_file ''disp1.pfm'' [CHR ''P'', CHR ''6'', CHR 0x0A, CHR ''x'']))) 0 = Some ''x''
   \<and> snd (read_pfm float_of_decimal ''disp1.pfm''
        (one_file ''disp1.pfm'' [CHR ''P'', CHR ''f'', CHR 0x0A, CHR ''w'', CHR 0x0A, CHR ''x'']))
     = Inl (Exception ''Malformed PFM header.'')
   \<and> handles (fst (read_pfm float_of_decimal ''disp1.pfm''
        (one_file ''disp1.pfm'' [CHR ''P'', CHR ''f'', CHR 0x0A, CHR ''w'', CHR 0x0A, CHR ''x'']))) 0
     = Some ''x''"
  by (simp add: pfm_eval_defs match_dims_def is_digit_def)

section \<open>Properties of read\_pfm: the result\<close>

lemma bind_readline:
  "handles w fd = Some bs \<Longrightarrow>
   bind_io (readline fd) f w =
     f (fst (split_line bs)) (w\<lparr>handles := (handles w)(fd \<mapsto> snd (split_line bs))\<rparr>)"
  by (simp add: bind_io_def readline_def)

lemma bind_fromfile:
  "handles w fd = Some bs \<Longrightarrow>
   bind_io (fromfile fd e) f w =
     f (decode_f32 e bs) (w\<lparr>handles := (handles w)(fd \<mapsto> drop (4 * (length bs div 4)) bs)\<rparr>)"
  by (simp add: bind_io_def fromfile_def)

lemma bind_lift_Inr: "bind_io (lift_io (Inr x)) f w = f x w"
  by (simp add: bind_io_def lift_io_def)

lemma bind_lift_Inl: "bind_io (lift_io (Inl e)) f w = (w, Inl e)"
  by (simp add: bind_io_def lift_io_def)

lemma bind_return: "bind_io (return_io x) f w = f x w"
  by (simp add: bind_io_def return_io_def)

lemma bind_raise: "bind_io (raise_io e) f w = (w, Inl e)"
  by (simp add: bind_io_def raise_io_def)

lemma snd_return: "snd (return_io x w) = Inr x"
  by (simp add: return_io_def)

lemma snd_lift_bind:
  "snd (bind_io (lift_io r) f w) = (case r of Inl e \<Rightarrow> Inl e | Inr x \<Rightarrow> snd (f x w))"
  by (cases r) (simp_all add: bind_lift_Inl bind_lift_Inr)

lemma decode_ascii_magic: "decode_ascii ''PF'' = Inr ''PF''" "decode_ascii ''Pf'' = Inr ''Pf''"
  by (simp_all add: decode_ascii_def)

lemma shape_flip0 [simp]: "shape (flip0 a) = shape a"
  by (simp add: flip0_def)

lemma read_pfm_bad_dims:
  assumes f: "files w p = Some bs"
    and parts: "pfm_parts bs = (l1, l2, l3, payload)"
    and magic: "rstrip l1 = ''PF'' \<or> rstrip l1 = ''Pf''"
    and asc: "decode_ascii l2 = Inr l2"
    and dims: "re_search_dims l2 = None"
  shows "snd (read_pfm py_float p w) = Inl (Exception ''Malformed PFM header.'')"
proof -
  have l1: "l1 = fst (split_line bs)" and l2: "l2 = fst (split_line (snd (split_line bs)))"
    using parts by (simp_all add: pfm_parts_def Let_def split: prod.splits)
  show ?thesis
    using magic asc dims unfolding l1 l2 read_pfm_def bind_open_rb[OF f]
    by (auto simp: bind_readline bind_lift_Inr bind_raise decode_ascii_magic)
qed

lemma read_pfm_good_dims:
  assumes f: "files w p = Some bs"
    and parts: "pfm_parts bs = (l1, l2, l3, payload)"
    and magic: "rstrip l1 = ''PF'' \<or> rstrip l1 = ''Pf''"
    and asc: "decode_ascii l2 = Inr l2"
    and dims: "re_search_dims l2 = Some (g1, g2)"
  shows "snd (read_pfm py_float p w) =
     (case py_float (rstrip l3) of
        None \<Rightarrow> Inl ValueError
      | Some parsed \<Rightarrow>
          (case reshape (decode_f32 (if fgt (Fin 0) parsed then Little else Big) payload)
                  (if rstrip l1 = ''PF'' then [int_of_digits g2, int_of_digits g1, 3]
                   else [int_of_digits g2, int_of_digits g1]) of
             Inl e \<Rightarrow> Inl e
           | Inr a \<Rightarrow> Inr (flip0 a, if fgt (Fin 0) parsed then fneg parsed else parsed)))"
proof -
  have l1: "l1 = fst (split_line bs)" and l2: "l2 = fst (split_line (snd (split_line bs)))"
    and l3: "l3 = fst (split_line (snd (split_line (snd (split_line bs)))))"
    and pl: "payload = snd (split_line (snd (split_line (snd (split_line bs)))))"
    using parts by (simp_all add: pfm_parts_def Let_def split: prod.splits)
  note binds = bind_readline bind_fromfile bind_lift_Inr bind_lift_Inl bind_raise
    bind_return decode_ascii_magic
  have asc': "decode_ascii (fst (split_line (snd (split_line bs)))) =
                Inr (fst (split_line (snd (split_line bs))))"
    using asc l2 by simp
  have dims': "re_search_dims (fst (split_line (snd (split_line bs)))) = Some (g1, g2)"
    using dims l2 by simp
  show ?thesis
  proof (cases "py_float (rstrip l3)")
    case None
    then have n: "py_float (rstrip (fst (split_line (snd (split_line (snd (split_line bs))))))) = None"
      using l3 by simp
    from magic show ?thesis
      unfolding None
      by (elim disjE)
        (simp_all add: read_pfm_def bind_open_rb[OF f] binds l1[symmetric] asc' dims' n)
  next
    case (Some parsed)
    then have n: "py_float (rstrip (fst (split_line (snd (split_line (snd (split_line bs))))))) = Some parsed"
      using l3 by simp
    from magic show ?thesis
      unfolding Some pl
      by (elim disjE)
        (simp_all add: read_pfm_def bind_open_rb[OF f] binds l1[symmetric] asc' dims' n
          snd_lift_bind snd_return cong: sum.case_cong)
  qed
qed

section \<open>Properties of the search for the dimensions\<close>

lemma is_space_not_digit: "is_space c \<Longrightarrow> \<not> is_digit c"
  by (auto simp: is_space_def is_digit_def)

lemma match_dims_Nil [simp]: "match_dims [] = None"
  by (simp add: match_dims_def)

lemma match_dims_here: "match_dims s = Some (g1, g2) \<Longrightarrow> dims_here s g1 g2"
proof -
  assume m: "match_dims s = Some (g1, g2)"
  from m have g1: "g1 = takeWhile is_digit s" "g1 \<noteq> []"
    by (auto simp: match_dims_def Let_def split: if_splits list.splits)
  from m obtain c r where cr: "dropWhile is_digit s = c # r" "is_space c"
    "g2 = takeWhile is_digit r" "g2 \<noteq> []"
    by (auto simp: match_dims_def Let_def split: if_splits list.splits)
  let ?post = "dropWhile is_digit r"
  have s: "s = g1 @ c # g2 @ ?post"
    using takeWhile_dropWhile_id[of is_digit s] takeWhile_dropWhile_id[of is_digit r] g1(1) cr(1,3)
    by simp
  have p: "?post = [] \<or> \<not> is_digit (hd ?post)"
    using hd_dropWhile[of is_digit r] by blast
  have d: "list_all is_digit g1" "list_all is_digit g2"
    using g1(1) cr(3) by (auto simp: list_all_iff dest: set_takeWhileD)
  show ?thesis
    unfolding dims_here_def using g1(2) cr(2,4) s p d by blast
qed

lemma here_match_dims: "dims_here s g1 g2 \<Longrightarrow> match_dims s = Some (g1, g2)"
proof -
  assume "dims_here s g1 g2"
  then obtain c post where h: "g1 \<noteq> []" "g2 \<noteq> []" "list_all is_digit g1" "list_all is_digit g2"
    "is_space c" "s = g1 @ c # g2 @ post" "post = [] \<or> \<not> is_digit (hd post)"
    unfolding dims_here_def by blast
  have nc: "\<not> is_digit c" using h(5) by (rule is_space_not_digit)
  have t1: "takeWhile is_digit s = g1"
    unfolding h(6) using h(3) nc by (simp add: takeWhile_append2 list_all_iff)
  have d1: "dropWhile is_digit s = c # g2 @ post"
    unfolding h(6) using h(3) nc by (simp add: dropWhile_append2 list_all_iff)
  have tp: "takeWhile is_digit post = []"
    using h(7) by (cases post) auto
  have t2: "takeWhile is_digit (g2 @ post) = g2"
    using h(4) tp by (simp add: takeWhile_append2 list_all_iff)
  show ?thesis
    using h(1,2,5) by (simp add: match_dims_def Let_def t1 d1 t2)
qed

lemma match_dims_iff: "match_dims s = Some (g1, g2) \<longleftrightarrow> dims_here s g1 g2"
  using match_dims_here here_match_dims by blast

lemma re_search_dims_Some_iff:
  "re_search_dims s = Some g \<longleftrightarrow>
     (\<exists>k\<le>length s. match_dims (drop k s) = Some g \<and> (\<forall>j<k. match_dims (drop j s) = None))"
proof (induction s)
  case Nil
  then show ?case by simp
next
  case (Cons c s)
  show ?case
  proof (cases "match_dims (c # s)")
    case None
    have e1: "(\<exists>k\<le>length (c # s). match_dims (drop k (c # s)) = Some g
              \<and> (\<forall>j<k. match_dims (drop j (c # s)) = None))
           \<longleftrightarrow> (\<exists>k\<le>length s. match_dims (drop k s) = Some g
              \<and> (\<forall>j<k. match_dims (drop j s) = None))"
    proof
      assume "\<exists>k\<le>length (c # s). match_dims (drop k (c # s)) = Some g
              \<and> (\<forall>j<k. match_dims (drop j (c # s)) = None)"
      then obtain k where k: "k \<le> length (c # s)" "match_dims (drop k (c # s)) = Some g"
        "\<forall>j<k. match_dims (drop j (c # s)) = None" by blast
      from k(2) None obtain k' where k': "k = Suc k'" by (cases k) simp_all
      have "\<forall>j<k'. match_dims (drop j s) = None"
      proof (intro allI impI)
        fix j assume "j < k'"
        then show "match_dims (drop j s) = None" using k(3)[rule_format, of "Suc j"] k' by simp
      qed
      with k k' show "\<exists>k\<le>length s. match_dims (drop k s) = Some g
              \<and> (\<forall>j<k. match_dims (drop j s) = None)"
        by (intro exI[of _ k']) simp
    next
      assume "\<exists>k\<le>length s. match_dims (drop k s) = Some g
              \<and> (\<forall>j<k. match_dims (drop j s) = None)"
      then obtain k where k: "k \<le> length s" "match_dims (drop k s) = Some g"
        "\<forall>j<k. match_dims (drop j s) = None" by blast
      have "\<forall>j<Suc k. match_dims (drop j (c # s)) = None"
      proof (intro allI impI)
        fix j assume j: "j < Suc k"
        show "match_dims (drop j (c # s)) = None"
        proof (cases j)
          case 0
          then show ?thesis using None by simp
        next
          case (Suc i)
          then show ?thesis using k(3)[rule_format, of i] j by simp
        qed
      qed
      with k show "\<exists>k\<le>length (c # s). match_dims (drop k (c # s)) = Some g
              \<and> (\<forall>j<k. match_dims (drop j (c # s)) = None)"
        by (intro exI[of _ "Suc k"]) simp
    qed
    have e2: "re_search_dims (c # s) = re_search_dims s" using None by simp
    show ?thesis by (simp only: e2 Cons.IH e1)
  next
    case (Some g')
    have e1: "(\<exists>k\<le>length (c # s). match_dims (drop k (c # s)) = Some g
              \<and> (\<forall>j<k. match_dims (drop j (c # s)) = None)) \<longleftrightarrow> g' = g"
    proof
      assume "\<exists>k\<le>length (c # s). match_dims (drop k (c # s)) = Some g
              \<and> (\<forall>j<k. match_dims (drop j (c # s)) = None)"
      then obtain k where k: "match_dims (drop k (c # s)) = Some g"
        "\<forall>j<k. match_dims (drop j (c # s)) = None" by blast
      have "k = 0"
      proof (rule ccontr)
        assume "k \<noteq> 0"
        then have "match_dims (drop 0 (c # s)) = None" using k(2) by blast
        with Some show False by simp
      qed
      with k(1) Some show "g' = g" by simp
    next
      assume "g' = g"
      with Some show "\<exists>k\<le>length (c # s). match_dims (drop k (c # s)) = Some g
              \<and> (\<forall>j<k. match_dims (drop j (c # s)) = None)"
        by (intro exI[of _ 0]) simp
    qed
    have e2: "re_search_dims (c # s) = Some g'" using Some by simp
    show ?thesis by (simp only: e2 e1 option.inject)
  qed
qed

lemma re_search_dims_None_iff:
  "re_search_dims s = None \<longleftrightarrow> (\<forall>k\<le>length s. match_dims (drop k s) = None)"
proof
  assume n: "re_search_dims s = None"
  show "\<forall>k\<le>length s. match_dims (drop k s) = None"
  proof (rule ccontr)
    assume "\<not> (\<forall>k\<le>length s. match_dims (drop k s) = None)"
    then have "\<exists>k. k \<le> length s \<and> match_dims (drop k s) \<noteq> None" by blast
    then obtain k where k: "k \<le> length s \<and> match_dims (drop k s) \<noteq> None"
      and least: "\<forall>m<k. \<not> (m \<le> length s \<and> match_dims (drop m s) \<noteq> None)"
      using exists_least_iff[of "\<lambda>k. k \<le> length s \<and> match_dims (drop k s) \<noteq> None"]
      by blast
    from k obtain g where g: "match_dims (drop k s) = Some g" by blast
    have "\<forall>j<k. match_dims (drop j s) = None"
    proof (intro allI impI)
      fix j assume j: "j < k"
      then have "j \<le> length s" using k by simp
      with least j show "match_dims (drop j s) = None" by blast
    qed
    with k g have "re_search_dims s = Some g"
      unfolding re_search_dims_Some_iff by blast
    with n show False by simp
  qed
next
  assume a: "\<forall>k\<le>length s. match_dims (drop k s) = None"
  show "re_search_dims s = None"
  proof (cases "re_search_dims s")
    case None
    then show ?thesis .
  next
    case (Some g)
    then obtain k where "k \<le> length s" "match_dims (drop k s) = Some g"
      unfolding re_search_dims_Some_iff by blast
    with a show ?thesis by simp
  qed
qed

lemma match_dims_None_iff: "match_dims s = None \<longleftrightarrow> (\<forall>g1 g2. \<not> dims_here s g1 g2)"
proof
  assume "match_dims s = None"
  then show "\<forall>g1 g2. \<not> dims_here s g1 g2"
    using here_match_dims by fastforce
next
  assume a: "\<forall>g1 g2. \<not> dims_here s g1 g2"
  show "match_dims s = None"
  proof (cases "match_dims s")
    case None
    then show ?thesis .
  next
    case (Some g)
    then have "dims_here s (fst g) (snd g)" by (intro match_dims_here) simp
    with a show ?thesis by blast
  qed
qed

lemma reshape_shape: "reshape d sh = Inr a \<Longrightarrow> shape a = sh \<and> data a = d"
  by (auto simp: reshape_def split: if_splits)

text \<open>
  Claim C6, as amended. \<^verbatim>\<open>read_pfm\<close> decodes the second header line as ASCII and
  searches it for the leftmost place where a run of decimal digits, exactly one
  whitespace character and another run of decimal digits stand, each run taken as long
  as the digits go. When the line has no such place, the load fails with ``Malformed PFM
  header.''. When it has one, the load does not fail with that error, and every array it
  returns has the two runs, read as decimal integers, as its width and height: shape
  (height, width) for \<^verbatim>\<open>Pf\<close> and (height, width, 3) for \<^verbatim>\<open>PF\<close>. Nothing asks the
  integers to be positive, and what surrounds the place in the line is ignored.
\<close>

theorem read_pfm_dimension_line:
  assumes f: "files w p = Some bs"
    and parts: "pfm_parts bs = (l1, l2, l3, payload)"
    and magic: "rstrip l1 = ''PF'' \<or> rstrip l1 = ''Pf''"
    and asc: "decode_ascii l2 = Inr l2"
  shows "((\<forall>k\<le>length l2. \<forall>g1 g2. \<not> dims_here (drop k l2) g1 g2) \<longrightarrow>
            snd (read_pfm py_float p w) = Inl (Exception ''Malformed PFM header.''))
    \<and> (\<forall>k g1 g2. k \<le> length l2 \<and> dims_here (drop k l2) g1 g2
            \<and> (\<forall>j<k. \<forall>a b. \<not> dims_here (drop j l2) a b) \<longrightarrow>
          snd (read_pfm py_float p w) \<noteq> Inl (Exception ''Malformed PFM header.'')
          \<and> (\<forall>a s. snd (read_pfm py_float p w) = Inr (a, s) \<longrightarrow>
                shape a = (if rstrip l1 = ''PF'' then [int_of_digits g2, int_of_digits g1, 3]
                           else [int_of_digits g2, int_of_digits g1])))"
proof (intro conjI impI allI)
  assume "\<forall>k\<le>length l2. \<forall>g1 g2. \<not> dims_here (drop k l2) g1 g2"
  then have "\<forall>k\<le>length l2. match_dims (drop k l2) = None"
    by (simp add: match_dims_None_iff)
  then have "re_search_dims l2 = None"
    by (simp add: re_search_dims_None_iff)
  with f parts magic asc
  show "snd (read_pfm py_float p w) = Inl (Exception ''Malformed PFM header.'')"
    by (rule read_pfm_bad_dims)
next
  fix k g1 g2
  assume a: "k \<le> length l2 \<and> dims_here (drop k l2) g1 g2
            \<and> (\<forall>j<k. \<forall>a b. \<not> dims_here (drop j l2) a b)"
  then have m: "match_dims (drop k l2) = Some (g1, g2)"
    by (simp add: match_dims_iff)
  from a have n: "\<forall>j<k. match_dims (drop j l2) = None"
    by (simp add: match_dims_None_iff)
  from a m n have s: "re_search_dims l2 = Some (g1, g2)"
    unfolding re_search_dims_Some_iff by blast
  note r = read_pfm_good_dims[OF f parts magic asc s, of py_float]
  show "snd (read_pfm py_float p w) \<noteq> Inl (Exception ''Malformed PFM header.'')"
    unfolding r by (auto simp: reshape_def split: option.splits if_splits)
  fix a s
  assume res: "snd (read_pfm py_float p w) = Inr (a, s)"
  show "shape a = (if rstrip l1 = ''PF'' then [int_of_digits g2, int_of_digits g1, 3]
                     else [int_of_digits g2, int_of_digits g1])"
    using res unfolding r by (auto simp: reshape_def split: option.splits if_splits)
qed

theorem read_pfm_dimension_line_witness:
  "snd (read_pfm float_of_decimal ''disp1.pfm''
        (one_file ''disp1.pfm'' (pfm_bytes ''Pf'' ''two by two'' ''-1.0'' ''0123456789abcdef'')))
     = Inl (Exception ''Malformed PFM header.'')
   \<and> snd (read_pfm float_of_decimal ''disp1.pfm''
        (one_file ''disp1.pfm'' (pfm_bytes ''Pf'' ''2 2'' ''-1.0'' ''0123456789abcdef'')))
     = Inr (\<lparr>shape = [2, 2], data = [0x62613938, 0x66656463, 0x33323130, 0x37363534]\<rparr>, Fin 1)
   \<and> shape \<lparr>shape = [2, 2], data = [0x62613938, 0x66656463, 0x33323130, 0x37363534 :: 32 word]\<rparr>
     = [int_of_digits ''2'', int_of_digits ''2'']"
proof -
  let ?bad = "pfm_bytes ''Pf'' ''two by two'' ''-1.0'' ''0123456789abcdef''"
  let ?good = "pfm_bytes ''Pf'' ''2 2'' ''-1.0'' ''0123456789abcdef''"
  let ?l1 = "''Pf'' @ [CHR 0x0A]"
  let ?l3 = "''-1.0'' @ [CHR 0x0A]"
  let ?a = "\<lparr>shape = [2, 2], data = [0x62613938, 0x66656463, 0x33323130, 0x37363534 :: 32 word]\<rparr>"
  have fb: "files (one_file ''disp1.pfm'' ?bad) ''disp1.pfm'' = Some ?bad"
    and fg: "files (one_file ''disp1.pfm'' ?good) ''disp1.pfm'' = Some ?good"
    by (simp_all add: one_file_def)
  have pb: "pfm_parts ?bad = (?l1, ''two by two'' @ [CHR 0x0A], ?l3, ''0123456789abcdef'')"
    and pg: "pfm_parts ?good = (?l1, ''2 2'' @ [CHR 0x0A], ?l3, ''0123456789abcdef'')"
    by (simp_all add: pfm_parts_def split_line_def pfm_bytes_def Let_def)
  have magic: "rstrip ?l1 = ''PF'' \<or> rstrip ?l1 = ''Pf''"
    by (simp add: rstrip_def is_bytes_space_def)
  have ab: "decode_ascii (''two by two'' @ [CHR 0x0A]) = Inr (''two by two'' @ [CHR 0x0A])"
    and ag: "decode_ascii (''2 2'' @ [CHR 0x0A]) = Inr (''2 2'' @ [CHR 0x0A])"
    by (simp_all add: decode_ascii_def)
  have "re_search_dims (''two by two'' @ [CHR 0x0A]) = None"
    by (simp add: match_dims_def is_digit_def Let_def)
  then have nb: "\<forall>k\<le>length (''two by two'' @ [CHR 0x0A]).
                   \<forall>g1 g2. \<not> dims_here (drop k (''two by two'' @ [CHR 0x0A])) g1 g2"
    unfolding re_search_dims_None_iff match_dims_None_iff .
  have "match_dims (''2 2'' @ [CHR 0x0A]) = Some (''2'', ''2'')"
    by (simp add: match_dims_def is_digit_def is_space_def Let_def)
  then have hg: "dims_here (drop 0 (''2 2'' @ [CHR 0x0A])) ''2'' ''2''"
    by (simp add: match_dims_iff)
  from read_pfm_dimension_line[OF fb pb magic ab, of float_of_decimal] nb
  have 1: "snd (read_pfm float_of_decimal ''disp1.pfm'' (one_file ''disp1.pfm'' ?bad))
             = Inl (Exception ''Malformed PFM header.'')"
    by blast
  have 2: "snd (read_pfm float_of_decimal ''disp1.pfm'' (one_file ''disp1.pfm'' ?good))
             = Inr (?a, Fin 1)"
    by (simp add: pfm_eval_all)
  from read_pfm_dimension_line[OF fg pg magic ag, of float_of_decimal] hg 2
  have 3: "shape ?a = (if rstrip ?l1 = ''PF'' then [int_of_digits ''2'', int_of_digits ''2'', 3]
                       else [int_of_digits ''2'', int_of_digits ''2''])"
    by (metis le0 not_less_zero)
  have 4: "rstrip ?l1 \<noteq> ''PF''"
    by (simp add: rstrip_def is_bytes_space_def)
  from 1 2 3 4 show ?thesis by simp
qed

text \<open>
  The claim as stated fails in both directions. A line that holds two positive integers
  separated by two spaces is rejected with ``Malformed PFM header.'', because the
  pattern asks for exactly one whitespace character. A line that holds no positive
  integer at all, \<^verbatim>\<open>0 0\<close>, is accepted, and with an empty payload the load returns an
  array of shape \<open>(0, 0)\<close>.
\<close>

theorem read_pfm_dimension_line_counterexample:
  "snd (read_pfm float_of_decimal ''disp1.pfm''
        (one_file ''disp1.pfm'' (pfm_bytes ''Pf'' ''2  2'' ''-1.0'' ''0123456789abcdef'')))
     = Inl (Exception ''Malformed PFM header.'')
   \<and> snd (read_pfm float_of_decimal ''disp1.pfm''
        (one_file ''disp1.pfm'' (pfm_bytes ''Pf'' ''0 0'' ''-1.0'' [])))
     = Inr (\<lparr>shape = [0, 0], data = []\<rparr>, Fin 1)"
  by (simp add: pfm_eval_all)

section \<open>Properties of the payload and of the flip\<close>

lemma length_decode_f32: "length (decode_f32 e bs) = length bs div 4"
  by (induction e bs rule: decode_f32.induct) simp_all

lemma length_swap4 [simp]: "length (swap4 bs) = length bs"
  by (induction bs rule: swap4.induct) simp_all

lemma decode_f32_swap4: "decode_f32 Little bs = decode_f32 Big (swap4 bs)"
  by (induction bs rule: swap4.induct) (simp_all add: f32_word_def)

lemma of_char_less_256: "(of_char c :: nat) < 256"
  using of_char_mod_256[of c, where ?'a = nat] by (metis mod_less_divisor zero_less_numeral)

lemma byte_step: "t < (k::nat) \<Longrightarrow> x < 256 \<Longrightarrow> t * 256 + x < k * 256"
  by linarith

lemma unat_small: "n < 2 ^ 32 \<Longrightarrow> unat (word_of_nat n :: 32 word) = n"
  by (simp add: unat_of_nat take_bit_nat_eq_self)

lemma unat_be_word:
  "unat (be_word b0 b1 b2 b3) =
     ((of_char b0 * 256 + of_char b1) * 256 + of_char b2) * 256 + of_char b3"
proof -
  have "((of_char b0 * 256 + of_char b1) * 256 + of_char b2) * 256 + of_char b3
          < ((256 * 256) * 256) * (256::nat)"
    by (intro byte_step of_char_less_256)
  then have "((of_char b0 * 256 + of_char b1) * 256 + of_char b2) * 256 + of_char b3
          < (2::nat) ^ 32"
    by simp
  then show ?thesis
    unfolding be_word_def by (rule unat_small)
qed

lemma block_of_concat:
  assumes "\<forall>xs\<in>set xss. length xs = n" and "i < length xss"
  shows "take n (drop (i * n) (concat xss)) = xss ! i"
  using assms
proof (induction xss arbitrary: i)
  case Nil
  then show ?case by simp
next
  case (Cons xs xss)
  show ?case
  proof (cases i)
    case 0
    then show ?thesis using Cons.prems by simp
  next
    case (Suc j)
    then show ?thesis using Cons.prems Cons.IH[of j] by simp
  qed
qed

lemma length_concat_blocks:
  "\<forall>xs\<in>set xss. length xs = n \<Longrightarrow> length (concat xss) = length xss * n"
  by (induction xss) simp_all

lemma length_row:
  "Suc i * row_len a \<le> length (data a) \<Longrightarrow> length (row a i) = row_len a"
  by (simp add: row_def)

lemma row_flip0:
  assumes sh: "shape a = H # rest"
    and len: "length (data a) = H * prod_list rest"
    and i: "i < H"
  shows "row (flip0 a) i = row a (H - 1 - i)"
    and "length (data (flip0 a)) = length (data a)"
proof -
  let ?rl = "prod_list rest"
  let ?rows = "rev (map (row a) [0..<H])"
  have rl: "row_len a = ?rl" "row_len (flip0 a) = ?rl"
    using sh by (simp_all add: row_len_def flip0_def)
  have each: "\<forall>xs\<in>set ?rows. length xs = ?rl"
  proof
    fix xs assume "xs \<in> set ?rows"
    then obtain k where k: "k < H" "xs = row a k" by auto
    have "Suc k * ?rl \<le> H * ?rl" using k(1) by (intro mult_le_mono1) simp
    then show "length xs = ?rl" using k(2) len rl(1) length_row[of k a] by simp
  qed
  have d: "data (flip0 a) = concat ?rows"
    using sh by (simp add: flip0_def)
  have "row (flip0 a) i = take ?rl (drop (i * ?rl) (concat ?rows))"
    by (simp only: row_def rl(2) d)
  also have "\<dots> = ?rows ! i"
    using block_of_concat[OF each, of i] i by simp
  also have "\<dots> = row a (H - 1 - i)"
    using i by (simp add: rev_nth)
  finally show "row (flip0 a) i = row a (H - 1 - i)" .
  have "length (concat ?rows) = H * ?rl"
    using length_concat_blocks[OF each] by simp
  then show "length (data (flip0 a)) = length (data a)"
    using d len by simp
qed

lemma read_pfm_well_formed:
  assumes f: "files w p = Some bs"
    and parts: "pfm_parts bs = (l1, l2, l3, payload)"
    and magic: "rstrip l1 = ''PF'' \<or> rstrip l1 = ''Pf''"
    and asc: "decode_ascii l2 = Inr l2"
    and dims: "re_search_dims l2 = Some (g1, g2)"
    and sc: "py_float (rstrip l3) = Some parsed"
    and size: "length payload div 4 =
                 prod_list (if rstrip l1 = ''PF'' then [int_of_digits g2, int_of_digits g1, 3]
                            else [int_of_digits g2, int_of_digits g1])"
  shows "snd (read_pfm py_float p w) =
     Inr (flip0 \<lparr>shape = (if rstrip l1 = ''PF'' then [int_of_digits g2, int_of_digits g1, 3]
                             else [int_of_digits g2, int_of_digits g1]),
                  data = decode_f32 (if fgt (Fin 0) parsed then Little else Big) payload\<rparr>,
          if fgt (Fin 0) parsed then fneg parsed else parsed)"
  unfolding read_pfm_good_dims[OF f parts magic asc dims, of py_float] sc
  using size by (simp add: reshape_def length_decode_f32)

lemma magnitude_of_scale: "(if fgt (Fin 0) x then fneg x else x) = fabs x"
  by (cases x) auto

text \<open>
  Claim C5. For a well-formed file (magic token \<^verbatim>\<open>Pf\<close> or \<^verbatim>\<open>PF\<close>, a dimension line
  that gives width \<open>W\<close> and height \<open>H\<close>, a scale that \<^verbatim>\<open>float\<close> accepts, and a payload of
  \<open>H * W\<close> pixels, or \<open>H * W * 3\<close> for \<^verbatim>\<open>PF\<close>) the load returns an array of shape
  \<open>(H, W)\<close> for \<^verbatim>\<open>Pf\<close> and \<open>(H, W, 3)\<close> for \<^verbatim>\<open>PF\<close>, and row \<open>i\<close> of the result is
  stored scan-line \<open>H - 1 - i\<close>: row \<open>0\<close> is the last scan-line of the file and row
  \<open>H - 1\<close> is the first.
\<close>

theorem read_pfm_shape_and_flip:
  assumes f: "files w p = Some bs"
    and parts: "pfm_parts bs = (l1, l2, l3, payload)"
    and magic: "rstrip l1 = ''PF'' \<or> rstrip l1 = ''Pf''"
    and asc: "decode_ascii l2 = Inr l2"
    and dims: "re_search_dims l2 = Some (g1, g2)"
    and W: "W = int_of_digits g1" and H: "H = int_of_digits g2"
    and sh: "sh = (if rstrip l1 = ''PF'' then [H, W, 3] else [H, W])"
    and sc: "py_float (rstrip l3) = Some parsed"
    and size: "length payload div 4 = prod_list sh"
    and stored: "stored = \<lparr>shape = sh,
                   data = decode_f32 (if fgt (Fin 0) parsed then Little else Big) payload\<rparr>"
  shows "\<exists>a s. snd (read_pfm py_float p w) = Inr (a, s)
           \<and> shape a = sh
           \<and> length (data a) = prod_list sh
           \<and> (\<forall>i<H. row a i = row stored (H - 1 - i))"
proof -
  have size': "length payload div 4 =
                 prod_list (if rstrip l1 = ''PF'' then [int_of_digits g2, int_of_digits g1, 3]
                            else [int_of_digits g2, int_of_digits g1])"
    using size sh W H by simp
  have res: "snd (read_pfm py_float p w) =
               Inr (flip0 stored, if fgt (Fin 0) parsed then fneg parsed else parsed)"
    using read_pfm_well_formed[where py_float = py_float, OF f parts magic asc dims sc size']
      stored sh W H by simp
  obtain rest where shape: "shape stored = H # rest"
    using stored sh by (cases "rstrip l1 = ''PF''") simp_all
  have len: "length (data stored) = H * prod_list rest"
    using stored size shape by (simp add: length_decode_f32)
  have len': "length (data stored) = prod_list sh"
    using stored size by (simp add: length_decode_f32)
  have rows: "\<forall>i<H. row (flip0 stored) i = row stored (H - 1 - i)"
    using row_flip0(1)[OF shape len] by blast
  have "length (data (flip0 stored)) = prod_list sh"
  proof (cases "H = 0")
    case True
    then show ?thesis using len len' by (simp add: flip0_def shape)
  next
    case False
    then have "0 < H" by simp
    from row_flip0(2)[OF shape len this] len' show ?thesis by simp
  qed
  moreover have "shape (flip0 stored) = sh" using stored by simp
  ultimately show ?thesis using res rows by blast
qed

theorem read_pfm_shape_and_flip_witness:
  "snd (read_pfm float_of_decimal ''disp1.pfm''
        (one_file ''disp1.pfm'' (pfm_bytes ''Pf'' ''3 2'' ''-1.0'' ''0123456789abcdefghijklmn'')))
     = Inr (\<lparr>shape = [2, 3],
               data = [0x66656463, 0x6a696867, 0x6e6d6c6b, 0x33323130, 0x37363534, 0x62613938]\<rparr>,
            Fin 1)
   \<and> row \<lparr>shape = [2, 3],
            data = [0x66656463, 0x6a696867, 0x6e6d6c6b, 0x33323130, 0x37363534, 0x62613938 :: 32 word]\<rparr> 0
       = row \<lparr>shape = [2, 3], data = decode_f32 Little ''0123456789abcdefghijklmn''\<rparr> (Suc 0)
   \<and> row \<lparr>shape = [2, 3],
            data = [0x66656463, 0x6a696867, 0x6e6d6c6b, 0x33323130, 0x37363534, 0x62613938 :: 32 word]\<rparr> (Suc 0)
       = row \<lparr>shape = [2, 3], data = decode_f32 Little ''0123456789abcdefghijklmn''\<rparr> 0
   \<and> row \<lparr>shape = [2, 3], data = decode_f32 Little ''0123456789abcdefghijklmn''\<rparr> 0
       = [0x33323130, 0x37363534, 0x62613938]"
proof -
  let ?pl = "''0123456789abcdefghijklmn''"
  let ?bs = "pfm_bytes ''Pf'' ''3 2'' ''-1.0'' ?pl"
  let ?l1 = "''Pf'' @ [CHR 0x0A]"
  let ?l2 = "''3 2'' @ [CHR 0x0A]"
  let ?l3 = "''-1.0'' @ [CHR 0x0A]"
  let ?a = "\<lparr>shape = [2, 3],
     data = [0x66656463, 0x6a696867, 0x6e6d6c6b, 0x33323130, 0x37363534, 0x62613938 :: 32 word]\<rparr>"
  let ?st = "\<lparr>shape = [2, 3], data = decode_f32 Little ?pl\<rparr>"
  have f: "files (one_file ''disp1.pfm'' ?bs) ''disp1.pfm'' = Some ?bs"
    by (simp add: one_file_def)
  have parts: "pfm_parts ?bs = (?l1, ?l2, ?l3, ?pl)"
    by (simp add: pfm_parts_def split_line_def pfm_bytes_def Let_def)
  have magic: "rstrip ?l1 = ''PF'' \<or> rstrip ?l1 = ''Pf''"
    and notpf: "rstrip ?l1 \<noteq> ''PF''"
    by (simp_all add: rstrip_def is_bytes_space_def)
  have asc: "decode_ascii ?l2 = Inr ?l2"
    by (simp add: decode_ascii_def)
  have dims: "re_search_dims ?l2 = Some (''3'', ''2'')"
    by (simp add: match_dims_def is_digit_def is_space_def Let_def)
  have width: "3 = int_of_digits ''3''" and height: "2 = int_of_digits ''2''"
    by (simp_all add: int_of_digits_def digit_val_def)
  have sh: "[2, 3] = (if rstrip ?l1 = ''PF'' then [2, 3, 3] else [2, 3 :: nat])"
    using notpf by simp
  have sc: "float_of_decimal (rstrip ?l3) = Some (Fin (- 1))"
    by (simp add: float_of_decimal_def rstrip_def is_bytes_space_def is_digit_def
        int_of_digits_def digit_val_def Let_def)
  have size: "length ?pl div 4 = prod_list [2, 3 :: nat]"
    by simp
  have stored: "?st = \<lparr>shape = [2, 3],
       data = decode_f32 (if fgt (Fin 0) (Fin (- 1)) then Little else Big) ?pl\<rparr>"
    by simp
  from read_pfm_shape_and_flip[where py_float = float_of_decimal and W = 3 and H = 2
      and sh = "[2, 3]" and stored = ?st, OF f parts magic asc dims width height sh sc size stored]
  obtain a s where r: "snd (read_pfm float_of_decimal ''disp1.pfm'' (one_file ''disp1.pfm'' ?bs))
                         = Inr (a, s)"
    and rows: "\<forall>i<2. row a i = row ?st (2 - 1 - i)"
    by blast
  have ev: "snd (read_pfm float_of_decimal ''disp1.pfm'' (one_file ''disp1.pfm'' ?bs))
              = Inr (?a, Fin 1)"
    by (simp add: pfm_eval_all)
  from r ev have a: "a = ?a" by simp
  have r0: "row ?a 0 = row ?st (Suc 0)"
    using rows[rule_format, of 0] unfolding a by simp
  have r1: "row ?a (Suc 0) = row ?st 0"
    using rows[rule_format, of "Suc 0"] unfolding a by simp
  have s0: "row ?st 0 = [0x33323130, 0x37363534, 0x62613938]"
    by (simp add: row_def row_len_def f32_word_def be_word_def)
  from ev r0 r1 s0 show ?thesis by blast
qed

section \<open>Properties of read\_pfm: byte order and scale\<close>

lemma nth_decode_f32:
  "k < length bs div 4 \<Longrightarrow>
   decode_f32 e bs ! k =
     f32_word e (bs ! (4 * k)) (bs ! (4 * k + 1)) (bs ! (4 * k + 2)) (bs ! (4 * k + 3))"
proof (induction e bs arbitrary: k rule: decode_f32.induct)
  case (1 e b0 b1 b2 b3 bs)
  show ?case
  proof (cases k)
    case 0
    then show ?thesis by simp
  next
    case (Suc j)
    then have "j < length bs div 4" using "1.prems" by simp
    from "1.IH"[OF this] Suc show ?thesis by (simp add: numeral_eq_Suc)
  qed
qed simp_all

lemma swap4_swap4 [simp]: "swap4 (swap4 bs) = bs"
  by (induction bs rule: swap4.induct) simp_all

lemma decode_f32_other_order:
  "decode_f32 (if neg' then Little else Big) (if neg' = neg then bs else swap4 bs)
     = decode_f32 (if neg then Little else Big) bs"
  by (cases neg; cases neg') (simp_all add: decode_f32_swap4)

text \<open>
  Claim C4. For a well-formed file whose scale line \<^verbatim>\<open>float\<close> reads as \<open>parsed\<close>: the
  pixels are read least significant byte first when \<open>parsed < 0\<close> and most significant
  byte first otherwise (a NaN is not below zero and takes the second branch), and pixel
  \<open>k\<close> is exactly the 32-bit pattern that the four bytes \<open>4k \<dots> 4k+3\<close> of the payload
  spell in that order. The second component of the result is the magnitude of \<open>parsed\<close>.
  The returned array holds the decoded patterns and nothing else: a second file with
  the same two first lines whose scale has the same sign and any magnitude, or the
  other sign and a payload with every four bytes reversed, gives the same array, with
  its own magnitude as the scale. The model has one zero, as Python's \<^verbatim>\<open>==\<close> has.
\<close>

theorem read_pfm_byte_order_and_scale:
  assumes f: "files w p = Some bs"
    and parts: "pfm_parts bs = (l1, l2, l3, payload)"
    and magic: "rstrip l1 = ''PF'' \<or> rstrip l1 = ''Pf''"
    and asc: "decode_ascii l2 = Inr l2"
    and dims: "re_search_dims l2 = Some (g1, g2)"
    and sh: "sh = (if rstrip l1 = ''PF'' then [int_of_digits g2, int_of_digits g1, 3]
                   else [int_of_digits g2, int_of_digits g1])"
    and sc: "py_float (rstrip l3) = Some parsed"
    and size: "length payload div 4 = prod_list sh"
    and px: "pixels = decode_f32 (if fgt (Fin 0) parsed then Little else Big) payload"
  shows "snd (read_pfm py_float p w) = Inr (flip0 \<lparr>shape = sh, data = pixels\<rparr>, fabs parsed)
       \<and> length pixels = length payload div 4
       \<and> (\<forall>k < length payload div 4.
            unat (pixels ! k) =
              (if fgt (Fin 0) parsed
               then ((of_char (payload ! (4 * k + 3)) * 256 + of_char (payload ! (4 * k + 2))) * 256
                       + of_char (payload ! (4 * k + 1))) * 256 + of_char (payload ! (4 * k))
               else ((of_char (payload ! (4 * k)) * 256 + of_char (payload ! (4 * k + 1))) * 256
                       + of_char (payload ! (4 * k + 2))) * 256 + of_char (payload ! (4 * k + 3))))
       \<and> (\<forall>w' p' bs' l3' parsed'.
            files w' p' = Some bs' \<longrightarrow>
            pfm_parts bs' = (l1, l2, l3', if fgt (Fin 0) parsed' = fgt (Fin 0) parsed
                                          then payload else swap4 payload) \<longrightarrow>
            py_float (rstrip l3') = Some parsed' \<longrightarrow>
            snd (read_pfm py_float p' w')
              = Inr (flip0 \<lparr>shape = sh, data = pixels\<rparr>, fabs parsed'))"
proof (intro conjI allI impI)
  have size': "length payload div 4 =
                 prod_list (if rstrip l1 = ''PF'' then [int_of_digits g2, int_of_digits g1, 3]
                            else [int_of_digits g2, int_of_digits g1])"
    using size sh by simp
  show "snd (read_pfm py_float p w) = Inr (flip0 \<lparr>shape = sh, data = pixels\<rparr>, fabs parsed)"
    using read_pfm_well_formed[where py_float = py_float, OF f parts magic asc dims sc size']
    by (simp add: magnitude_of_scale sh px)
  show "length pixels = length payload div 4"
    by (simp add: px length_decode_f32)
  {
    fix k assume k: "k < length payload div 4"
    show "unat (pixels ! k) =
              (if fgt (Fin 0) parsed
               then ((of_char (payload ! (4 * k + 3)) * 256 + of_char (payload ! (4 * k + 2))) * 256
                       + of_char (payload ! (4 * k + 1))) * 256 + of_char (payload ! (4 * k))
               else ((of_char (payload ! (4 * k)) * 256 + of_char (payload ! (4 * k + 1))) * 256
                       + of_char (payload ! (4 * k + 2))) * 256 + of_char (payload ! (4 * k + 3)))"
      unfolding px nth_decode_f32[OF k] by (simp add: f32_word_def unat_be_word)
  }
  {
    fix w' :: world and p' bs' l3' parsed'
    let ?pl' = "if fgt (Fin 0) parsed' = fgt (Fin 0) parsed then payload else swap4 payload"
    assume f': "files w' p' = Some bs'"
      and parts': "pfm_parts bs' = (l1, l2, l3', ?pl')"
      and sc': "py_float (rstrip l3') = Some parsed'"
    have len: "length ?pl' = length payload" by simp
    have size'': "length ?pl' div 4 =
                 prod_list (if rstrip l1 = ''PF'' then [int_of_digits g2, int_of_digits g1, 3]
                            else [int_of_digits g2, int_of_digits g1])"
      unfolding len by (rule size')
    show "snd (read_pfm py_float p' w')
              = Inr (flip0 \<lparr>shape = sh, data = pixels\<rparr>, fabs parsed')"
      using read_pfm_well_formed[where py_float = py_float,
          OF f' parts' magic asc dims sc' size'']
      by (simp only: magnitude_of_scale sh px decode_f32_other_order)
  }
qed

theorem read_pfm_byte_order_and_scale_witness:
  "snd (read_pfm float_of_decimal ''left.pfm''
        (one_file ''left.pfm'' (pfm_bytes ''Pf'' ''2 2'' ''-1.0'' ''0123456789abcdef'')))
     = Inr (flip0 \<lparr>shape = [2, 2],
                   data = [0x33323130, 0x37363534, 0x62613938, 0x66656463]\<rparr>, Fin 1)
   \<and> unat ([0x33323130, 0x37363534, 0x62613938, 0x66656463 :: 32 word] ! 1)
       = ((of_char CHR ''7'' * 256 + of_char CHR ''6'') * 256 + of_char CHR ''5'') * 256
           + of_char CHR ''4''
   \<and> snd (read_pfm float_of_decimal ''right.pfm''
        (one_file ''right.pfm'' (pfm_bytes ''Pf'' ''2 2'' ''2.5'' ''32107654ba98fedc'')))
     = Inr (flip0 \<lparr>shape = [2, 2],
                   data = [0x33323130, 0x37363534, 0x62613938, 0x66656463]\<rparr>, Fin (5 / 2))"
proof -
  let ?pl = "''0123456789abcdef''"
  let ?bs = "pfm_bytes ''Pf'' ''2 2'' ''-1.0'' ?pl"
  let ?bs' = "pfm_bytes ''Pf'' ''2 2'' ''2.5'' ''32107654ba98fedc''"
  let ?l1 = "''Pf'' @ [CHR 0x0A]"
  let ?l2 = "''2 2'' @ [CHR 0x0A]"
  let ?l3 = "''-1.0'' @ [CHR 0x0A]"
  let ?l3' = "''2.5'' @ [CHR 0x0A]"
  let ?px = "[0x33323130, 0x37363534, 0x62613938, 0x66656463 :: 32 word]"
  have f: "files (one_file ''left.pfm'' ?bs) ''left.pfm'' = Some ?bs"
    and f': "files (one_file ''right.pfm'' ?bs') ''right.pfm'' = Some ?bs'"
    by (simp_all add: one_file_def)
  have parts: "pfm_parts ?bs = (?l1, ?l2, ?l3, ?pl)"
    by (simp add: pfm_parts_def split_line_def pfm_bytes_def Let_def)
  have parts': "pfm_parts ?bs' = (?l1, ?l2, ?l3',
                  if fgt (Fin 0) (Fin (5 / 2)) = fgt (Fin 0) (Fin (- 1)) then ?pl else swap4 ?pl)"
    by (simp add: pfm_parts_def split_line_def pfm_bytes_def Let_def)
  have magic: "rstrip ?l1 = ''PF'' \<or> rstrip ?l1 = ''Pf''"
    and notpf: "rstrip ?l1 \<noteq> ''PF''"
    by (simp_all add: rstrip_def is_bytes_space_def)
  have asc: "decode_ascii ?l2 = Inr ?l2"
    by (simp add: decode_ascii_def)
  have dims: "re_search_dims ?l2 = Some (''2'', ''2'')"
    by (simp add: match_dims_def is_digit_def is_space_def Let_def)
  have sh: "[2, 2] = (if rstrip ?l1 = ''PF'' then [int_of_digits ''2'', int_of_digits ''2'', 3]
                      else [int_of_digits ''2'', int_of_digits ''2''])"
    using notpf by (simp add: int_of_digits_def digit_val_def)
  have sc: "float_of_decimal (rstrip ?l3) = Some (Fin (- 1))"
    and sc': "float_of_decimal (rstrip ?l3') = Some (Fin (5 / 2))"
    by (simp_all add: float_of_decimal_def rstrip_def is_bytes_space_def is_digit_def
        int_of_digits_def digit_val_def Let_def)
  have size: "length ?pl div 4 = prod_list [2, 2 :: nat]"
    by simp
  have px: "?px = decode_f32 (if fgt (Fin 0) (Fin (- 1)) then Little else Big) ?pl"
    by (simp add: f32_word_def be_word_def)
  note all = read_pfm_byte_order_and_scale[where py_float = float_of_decimal
      and sh = "[2, 2]" and pixels = ?px, OF f parts magic asc dims sh sc size px]
  from all have one: "snd (read_pfm float_of_decimal ''left.pfm'' (one_file ''left.pfm'' ?bs))
                        = Inr (flip0 \<lparr>shape = [2, 2], data = ?px\<rparr>, fabs (Fin (- 1)))"
    by (rule conjunct1)
  from all have "\<forall>k < length ?pl div 4.
            unat (?px ! k) =
              (if fgt (Fin 0) (Fin (- 1))
               then ((of_char (?pl ! (4 * k + 3)) * 256 + of_char (?pl ! (4 * k + 2))) * 256
                       + of_char (?pl ! (4 * k + 1))) * 256 + of_char (?pl ! (4 * k))
               else ((of_char (?pl ! (4 * k)) * 256 + of_char (?pl ! (4 * k + 1))) * 256
                       + of_char (?pl ! (4 * k + 2))) * 256 + of_char (?pl ! (4 * k + 3)))"
    by blast
  from this[rule_format, of 1]
  have two: "unat (?px ! 1)
       = ((of_char CHR ''7'' * 256 + of_char CHR ''6'') * 256 + of_char CHR ''5'') * 256
           + of_char CHR ''4''"
    by simp
  from all have "\<forall>w' p' bs' l3' parsed'.
            files w' p' = Some bs' \<longrightarrow>
            pfm_parts bs' = (?l1, ?l2, l3', if fgt (Fin 0) parsed' = fgt (Fin 0) (Fin (- 1))
                                          then ?pl else swap4 ?pl) \<longrightarrow>
            float_of_decimal (rstrip l3') = Some parsed' \<longrightarrow>
            snd (read_pfm float_of_decimal p' w')
              = Inr (flip0 \<lparr>shape = [2, 2], data = ?px\<rparr>, fabs parsed')"
    by blast
  from this[rule_format, OF f' parts' sc']
  have three: "snd (read_pfm float_of_decimal ''right.pfm'' (one_file ''right.pfm'' ?bs'))
                 = Inr (flip0 \<lparr>shape = [2, 2], data = ?px\<rparr>, fabs (Fin (5 / 2)))" .
  from one two three show ?thesis by simp
qed

end
